theory Spec2Isabelle
  imports Main "HOL-Library.Word"
begin

unbundle bit_operations_syntax

section \<open>Machine types\<close>

type_synonym u8 = "8 word"
type_synonym u32 = "32 word"

section \<open>The ChaCha20 block function of edge-relays.cpp\<close>

text \<open>
  The macro \<open>QUARTERROUND(a,b,c,d)\<close> is expanded on four cells of the array
  \<open>output\<close>; every statement of the macro writes one cell in place.  The array is a
  list of 32-bit words, the cells are given by their indices.  The rotations are written
  as the source writes them, with two shifts and a bitwise or.
\<close>

definition QUARTERROUND :: "u32 list \<Rightarrow> nat \<Rightarrow> nat \<Rightarrow> nat \<Rightarrow> nat \<Rightarrow> u32 list" where
  "QUARTERROUND x0 a b c d =
    (let x = x0[a := x0 ! a + x0 ! b];
         x = x[d := x ! d XOR x ! a];
         x = x[d := push_bit 16 (x ! d) OR drop_bit 16 (x ! d)];
         x = x[c := x ! c + x ! d];
         x = x[b := x ! b XOR x ! c];
         x = x[b := push_bit 12 (x ! b) OR drop_bit 20 (x ! b)];
         x = x[a := x ! a + x ! b];
         x = x[d := x ! d XOR x ! a];
         x = x[d := push_bit 8 (x ! d) OR drop_bit 24 (x ! d)];
         x = x[c := x ! c + x ! d];
         x = x[b := x ! b XOR x ! c];
         x = x[b := push_bit 7 (x ! b) OR drop_bit 25 (x ! b)]
     in x)"

text \<open>The body of the loop \<open>for (int i = 0; i < 10; i++)\<close>: eight macro calls.\<close>

definition round_body :: "u32 list \<Rightarrow> u32 list" where
  "round_body x0 =
    (let x = QUARTERROUND x0 0 4 8 12;
         x = QUARTERROUND x 1 5 9 13;
         x = QUARTERROUND x 2 6 10 14;
         x = QUARTERROUND x 3 7 11 15;
         x = QUARTERROUND x 0 5 10 15;
         x = QUARTERROUND x 1 6 11 12;
         x = QUARTERROUND x 2 7 8 13;
         x = QUARTERROUND x 3 4 9 14
     in x)"

text \<open>
  \<open>chacha20_block(output, input)\<close>: copy the sixteen words, run the loop body ten
  times, add the input words.  The result is the final contents of \<open>output\<close>.
\<close>

definition chacha20_block :: "u32 list \<Rightarrow> u32 list" where
  "chacha20_block input =
    (let output = map (\<lambda>i. input ! i) [0..<16];
         output = fold (\<lambda>i x. round_body x) [0..<10] output
     in map (\<lambda>i. output ! i + input ! i) [0..<16])"

subsection \<open>The block function as the specification words it\<close>

text \<open>
  The reference definition follows the specification, not the source: a rotation to the
  left, a quarter-round on a tuple of four words, a double round made of four column
  quarter-rounds followed by four diagonal ones on the state seen as a four by four
  matrix stored row by row, ten double rounds, and the word-wise addition of the input.
\<close>

definition rotl :: "u32 \<Rightarrow> nat \<Rightarrow> u32" where
  "rotl w n = word_rotl n w"

definition quarter_round_ref :: "u32 \<times> u32 \<times> u32 \<times> u32 \<Rightarrow> u32 \<times> u32 \<times> u32 \<times> u32" where
  "quarter_round_ref = (\<lambda>(a, b, c, d).
    (let a = a + b; d = d XOR a; d = rotl d 16;
         c = c + d; b = b XOR c; b = rotl b 12;
         a = a + b; d = d XOR a; d = rotl d 8;
         c = c + d; b = b XOR c; b = rotl b 7
     in (a, b, c, d)))"

definition apply_quarter_round :: "nat \<times> nat \<times> nat \<times> nat \<Rightarrow> u32 list \<Rightarrow> u32 list" where
  "apply_quarter_round = (\<lambda>(i, j, k, l) s.
    (case quarter_round_ref (s ! i, s ! j, s ! k, s ! l) of
       (a, b, c, d) \<Rightarrow> s[i := a, j := b, k := c, l := d]))"

definition column_group :: "nat \<Rightarrow> nat \<times> nat \<times> nat \<times> nat" where
  "column_group n = (n, 4 + n, 8 + n, 12 + n)"

definition diagonal_group :: "nat \<Rightarrow> nat \<times> nat \<times> nat \<times> nat" where
  "diagonal_group n = (n, 4 + (n + 1) mod 4, 8 + (n + 2) mod 4, 12 + (n + 3) mod 4)"

definition double_round_ref :: "u32 list \<Rightarrow> u32 list" where
  "double_round_ref s =
     fold apply_quarter_round (map diagonal_group [0..<4])
       (fold apply_quarter_round (map column_group [0..<4]) s)"

definition chacha20_block_ref :: "u32 list \<Rightarrow> u32 list" where
  "chacha20_block_ref input = map2 (+) ((double_round_ref ^^ 10) input) input"

section \<open>The decryption routine of edge-relays.cpp\<close>

text \<open>
  A pointer is the list of the bytes that start at it, so \<open>p + n\<close> is \<open>drop n p\<close>.
  The module is built for WebAssembly, a little-endian target: \<open>memcpy\<close> of four
  bytes into a \<open>uint32_t\<close> puts the first byte lowest, and the cast
  \<open>(uint8_t*)keystream\<close> reads the bytes of each word lowest first.
\<close>

definition load_le32 :: "u8 list \<Rightarrow> nat \<Rightarrow> u32" where
  "load_le32 src k =
     ucast (src ! (4 * k)) OR push_bit 8 (ucast (src ! (4 * k + 1))) OR
     push_bit 16 (ucast (src ! (4 * k + 2))) OR push_bit 24 (ucast (src ! (4 * k + 3)))"

text \<open>\<open>memcpy(&dst[at], src, n)\<close> for a word array \<open>dst\<close> and \<open>n\<close> a multiple of four.\<close>

definition memcpy_words :: "u32 list \<Rightarrow> nat \<Rightarrow> u8 list \<Rightarrow> nat \<Rightarrow> u32 list" where
  "memcpy_words dst at src n = fold (\<lambda>k d. d[at + k := load_le32 src k]) [0..<n div 4] dst"

text \<open>\<open>((uint8_t*)keystream)[j]\<close>\<close>

definition keystream_byte :: "u32 list \<Rightarrow> nat \<Rightarrow> u8" where
  "keystream_byte keystream j = ucast (drop_bit (8 * (j mod 4)) (keystream ! (j div 4)))"

definition initial_state :: "u32 list" where
  "initial_state =
     [0x61707865, 0x3320646e, 0x79622d32, 0x6b206574, 0, 0, 0, 0, 0, 0, 0, 0, 0, 0, 0, 0]"

text \<open>The inner loop \<open>for (size_t j = 0; j < chunk; j++)\<close>.\<close>

definition xor_chunk :: "u32 list \<Rightarrow> u8 list \<Rightarrow> nat \<Rightarrow> nat \<Rightarrow> u8 list \<Rightarrow> u8 list" where
  "xor_chunk keystream input i chunk output =
     fold (\<lambda>j out. out[i + j := input ! (i + j) XOR keystream_byte keystream j]) [0..<chunk] output"

text \<open>
  The outer loop \<open>for (size_t i = 0; i < len; i += 64)\<close>.  The index \<open>i\<close> is a
  natural number: the input and the output buffer of \<open>len\<close> bytes both lie in one
  32-bit address space, so \<open>len\<close> is below \<open>2^31\<close> and \<open>i += 64\<close> cannot wrap.
  The counter word \<open>state[12]\<close> is a 32-bit word and \<open>state[12]++\<close> wraps.
\<close>

function decrypt_loop :: "nat \<Rightarrow> nat \<Rightarrow> u8 list \<Rightarrow> u32 list \<Rightarrow> u8 list \<Rightarrow> u8 list" where
  "decrypt_loop i len input state output =
     (if i < len then
        let state = state[12 := state ! 12 + 1];
            keystream = chacha20_block state;
            chunk = (if len - i < 64 then len - i else 64);
            output = xor_chunk keystream input i chunk output
        in decrypt_loop (i + 64) len input state output
      else output)"
  by pat_completeness auto
termination
  by (relation "measure (\<lambda>(i, len, input, state, output). len - i)") auto

declare decrypt_loop.simps [simp del]

text \<open>
  The array \<open>state\<close> after its initialiser and the two \<open>memcpy\<close> calls: the
  constants, the key in words 4 to 11, a zero counter in words 12 and 13, and the first
  eight bytes at \<open>nonce\<close> in words 14 and 15.
\<close>

definition keyed_state :: "u8 list \<Rightarrow> u8 list \<Rightarrow> u32 list" where
  "keyed_state key nonce =
     (let state = initial_state;
          state = memcpy_words state 4 key 32;
          state = memcpy_words state 14 nonce 8
      in state)"

text \<open>
  \<open>chacha20_decrypt(output, input, len, key, nonce)\<close>; the result is the contents of
  the output buffer when the routine returns.
\<close>

definition chacha20_decrypt :: "u8 list \<Rightarrow> u8 list \<Rightarrow> nat \<Rightarrow> u8 list \<Rightarrow> u8 list \<Rightarrow> u8 list" where
  "chacha20_decrypt output input len key nonce =
     decrypt_loop 0 len input (keyed_state key nonce) output"

section \<open>The cached payload\<close>

text \<open>
  The only state of the module is the static \<open>cached_result\<close>, an empty string when
  the module is loaded.  \<open>pipeline_runs\<close> is not in the source: it is the counter of
  an instrumented build, incremented where the key is recovered and the blob decrypted,
  and it is never read by the code.  The header \<open>edge-relays-data.h\<close> is generated at
  build time, so the arrays \<open>KEY_MATERIAL\<close> and \<open>ENCRYPTED_RELAYS\<close> are parameters
  and \<open>ENCRYPTED_RELAYS_LEN\<close> is the length of the second.
\<close>

record module_state =
  cached_result :: "u8 list"
  pipeline_runs :: nat

definition loaded :: module_state where
  "loaded = \<lparr>cached_result = [], pipeline_runs = 0\<rparr>"

text \<open>
  The code reads \<open>KEY_MATERIAL[0..63]\<close> and, with the unsigned subtraction
  \<open>ENCRYPTED_RELAYS_LEN - 24 - 16\<close>, needs a blob of at least forty bytes; on other
  data it reads outside the arrays, which C leaves undefined.
\<close>

definition well_formed :: "u8 list \<Rightarrow> u8 list \<Rightarrow> bool" where
  "well_formed KEY_MATERIAL ENCRYPTED_RELAYS \<longleftrightarrow>
     length KEY_MATERIAL = 64 \<and> 40 \<le> length ENCRYPTED_RELAYS"

text \<open>The loop \<open>for (int i = 0; i < 32; i++) key[i] = ...\<close> on the local array \<open>key\<close>.\<close>

definition deobfuscate_key :: "u8 list \<Rightarrow> u8 list \<Rightarrow> u8 list" where
  "deobfuscate_key KEY_MATERIAL key =
     fold (\<lambda>i key. key[i := KEY_MATERIAL ! i XOR KEY_MATERIAL ! (32 + i)]) [0..<32] key"

text \<open>\<open>std::string((char*)p)\<close>: the bytes at \<open>p\<close> before the first zero byte.\<close>

definition c_string :: "u8 list \<Rightarrow> u8 list" where
  "c_string p = takeWhile (\<lambda>b. b \<noteq> 0) p"

text \<open>
  The decryption pipeline of \<open>get_edge_relays\<close>, from the key loop to the write of the
  terminator: its value is the buffer \<open>decrypted\<close>.  The local \<open>key\<close> and the buffer
  from \<open>new\<close> hold indeterminate bytes at first; they are zero here, and
  \<open>deobfuscate_key_any_array\<close> and \<open>chacha20_decrypt_any_buffer\<close> below show that
  nothing depends on them.
\<close>

definition decrypt_pipeline :: "u8 list \<Rightarrow> u8 list \<Rightarrow> u8 list" where
  "decrypt_pipeline KEY_MATERIAL ENCRYPTED_RELAYS =
     (let key = deobfuscate_key KEY_MATERIAL (replicate 32 0);
          ciphertext = drop 24 ENCRYPTED_RELAYS;
          ciphertext_len = length ENCRYPTED_RELAYS - 24 - 16;
          decrypted = replicate (ciphertext_len + 1) 0;
          decrypted = chacha20_decrypt decrypted ciphertext ciphertext_len key ENCRYPTED_RELAYS
      in decrypted[ciphertext_len := 0])"

text \<open>
  Two names for the statements below: the bytes \<open>ciphertext[0..ciphertext_len)\<close> that
  the routine is given to read, and the bytes \<open>decrypted[0..ciphertext_len)\<close> that it
  has written when it returns.
\<close>

definition ciphertext_bytes :: "u8 list \<Rightarrow> u8 list" where
  "ciphertext_bytes ENCRYPTED_RELAYS =
     take (length ENCRYPTED_RELAYS - 24 - 16) (drop 24 ENCRYPTED_RELAYS)"

definition decrypted_bytes :: "u8 list \<Rightarrow> u8 list \<Rightarrow> u8 list" where
  "decrypted_bytes KEY_MATERIAL ENCRYPTED_RELAYS =
     take (length ENCRYPTED_RELAYS - 24 - 16) (decrypt_pipeline KEY_MATERIAL ENCRYPTED_RELAYS)"

definition get_edge_relays :: "u8 list \<Rightarrow> u8 list \<Rightarrow> module_state \<Rightarrow> u8 list \<times> module_state" where
  "get_edge_relays KEY_MATERIAL ENCRYPTED_RELAYS st =
     (if cached_result st \<noteq> [] then (cached_result st, st)
      else
        let decrypted = decrypt_pipeline KEY_MATERIAL ENCRYPTED_RELAYS;
            text = c_string decrypted
        in (text, st\<lparr>cached_result := text, pipeline_runs := pipeline_runs st + 1\<rparr>))"

text \<open>\<open>n\<close> calls in a row: the texts returned, in order, and the state left.\<close>

fun calls :: "u8 list \<Rightarrow> u8 list \<Rightarrow> nat \<Rightarrow> module_state \<Rightarrow> u8 list list \<times> module_state" where
  "calls KEY_MATERIAL ENCRYPTED_RELAYS 0 st = ([], st)"
| "calls KEY_MATERIAL ENCRYPTED_RELAYS (Suc n) st =
     (case get_edge_relays KEY_MATERIAL ENCRYPTED_RELAYS st of
        (text, st1) \<Rightarrow>
          (case calls KEY_MATERIAL ENCRYPTED_RELAYS n st1 of
             (texts, st2) \<Rightarrow> (text # texts, st2)))"

section \<open>The record counter\<close>

text \<open>
  The loop of \<open>get_relay_count\<close> walks the memory at \<open>json\<close> up to the first zero
  byte.  \<open>count\<close> and \<open>slashes\<close> are \<open>int\<close>, 32 bits in two's complement, and
  \<open>++\<close> wraps as the add instruction of the target does.
\<close>

fun count_loop :: "u8 list \<Rightarrow> 32 word \<Rightarrow> 32 word \<Rightarrow> 32 word" where
  "count_loop [] count slashes = count"
| "count_loop (c # p) count slashes =
     (if c = 0 then count
      else
        let slashes = (if c = 0x2F then slashes + 1 else slashes)
        in if c = 0x22 \<and> 0 <s slashes then count_loop p (count + 1) 0
           else count_loop p count slashes)"

definition get_relay_count :: "u8 list \<Rightarrow> u8 list \<Rightarrow> module_state \<Rightarrow> 32 word \<times> module_state" where
  "get_relay_count KEY_MATERIAL ENCRYPTED_RELAYS st =
     (case get_edge_relays KEY_MATERIAL ENCRYPTED_RELAYS st of
        (json, st1) \<Rightarrow> (count_loop (json @ [0]) 0 0, st1))"

subsection \<open>The scan as the specification words it\<close>

definition bytes_of :: "string \<Rightarrow> u8 list" where
  "bytes_of s = map of_char s"

fun estimate_scan :: "u8 list \<Rightarrow> nat \<Rightarrow> nat \<Rightarrow> nat" where
  "estimate_scan [] slashes result = result"
| "estimate_scan (c # cs) slashes result =
     (let slashes = (if c = of_char CHR ''/'' then slashes + 1 else slashes)
      in if c = of_char CHR 0x22 \<and> slashes > 0 then estimate_scan cs 0 (result + 1)
         else estimate_scan cs slashes result)"

definition estimate_count :: "u8 list \<Rightarrow> nat" where
  "estimate_count text = estimate_scan text 0 0"

section \<open>The factorial of demo.c\<close>

text \<open>
  \<open>n\<close> and \<open>i\<close> are \<open>int32_t\<close>, \<open>result\<close> is \<open>int64_t\<close>; \<open>i <= n\<close> is
  the signed comparison, \<open>result *= i\<close> sign-extends \<open>i\<close>, and \<open>i++\<close> and
  the product wrap as the instructions of the target do.  The loop is a partial function:
  \<open>None\<close> is a loop that never exits.
\<close>

partial_function (option) factorial_loop :: "32 word \<Rightarrow> 32 word \<Rightarrow> 64 word \<Rightarrow> 64 word option" where
  "factorial_loop i n result =
     (if i \<le>s n then factorial_loop (i + 1) n (result * scast i) else Some result)"

definition demo_factorial :: "32 word \<Rightarrow> 64 word option" where
  "demo_factorial n = (if n <s 0 then Some (- 1) else factorial_loop 2 n 1)"

section \<open>The block function meets its reference definition\<close>

lemma shift_or_rotl:
  fixes w :: u32
  assumes "0 < n" "n < 32"
  shows "push_bit n w OR drop_bit (32 - n) w = rotl w n"
  unfolding rotl_def
proof (rule bit_word_eqI)
  fix k assume "k < LENGTH(32)"
  then have k: "k < 32" by simp
  show "bit (push_bit n w OR drop_bit (32 - n) w) k = bit (word_rotl n w) k"
  proof (cases "k < n")
    case True
    then have "(k + (32 - n mod 32)) mod 32 = 32 - n + k" using assms k by simp
    with True k assms show ?thesis by (auto simp: bit_simps)
  next
    case False
    then have "(k + (32 - n mod 32)) mod 32 = k - n" using assms k
      by (simp add: mod_if)
    with False k assms show ?thesis by (auto simp: bit_simps dest: bit_imp_le_length)
  qed
qed

lemma rotl_16: "push_bit 16 w OR drop_bit 16 w = rotl w 16"
  using shift_or_rotl [of 16 w] by simp
lemma rotl_12: "push_bit 12 w OR drop_bit 20 w = rotl w 12"
  using shift_or_rotl [of 12 w] by simp
lemma rotl_8: "push_bit 8 w OR drop_bit 24 w = rotl w 8"
  using shift_or_rotl [of 8 w] by simp
lemma rotl_7: "push_bit 7 w OR drop_bit 25 w = rotl w 7"
  using shift_or_rotl [of 7 w] by simp

lemma QUARTERROUND_ref:
  assumes "a < length x" "b < length x" "c < length x" "d < length x" "distinct [a, b, c, d]"
  shows "QUARTERROUND x a b c d = apply_quarter_round (a, b, c, d) x"
  unfolding QUARTERROUND_def rotl_16 rotl_12 rotl_8 rotl_7
  using assms
  apply (simp add: apply_quarter_round_def quarter_round_ref_def Let_def cong: let_weak_cong)
  apply (rule nth_equalityI)
   apply simp
  apply (simp add: nth_list_update)
  done

lemma length_apply_quarter_round [simp]: "length (apply_quarter_round g s) = length s"
  by (cases g) (simp add: apply_quarter_round_def split: prod.splits)

lemma round_body_ref:
  assumes "length x = 16"
  shows "round_body x = double_round_ref x"
proof -
  have cols: "map column_group [0..<4] = [(0,4,8,12), (1,5,9,13), (2,6,10,14), (3,7,11,15)]"
    by (simp add: column_group_def upt_conv_Cons)
  have diags: "map diagonal_group [0..<4] = [(0,5,10,15), (1,6,11,12), (2,7,8,13), (3,4,9,14)]"
    by (simp add: diagonal_group_def upt_conv_Cons)
  show ?thesis
    unfolding round_body_def double_round_ref_def cols diags
    using assms by (simp add: QUARTERROUND_ref Let_def)
qed

lemma length_fold_apply_quarter_round [simp]:
  "length (fold apply_quarter_round gs s) = length s"
  by (induction gs arbitrary: s) simp_all

lemma length_double_round_ref [simp]: "length (double_round_ref x) = length x"
  by (simp add: double_round_ref_def)

lemma length_round_body [simp]: "length x = 16 \<Longrightarrow> length (round_body x) = 16"
  by (simp add: round_body_ref)

lemma fold_const_funpow: "fold (\<lambda>i. f) [0..<n] x = (f ^^ n) x"
  by (induction n arbitrary: x) simp_all

lemma length_funpow_double_round_ref [simp]: "length ((double_round_ref ^^ n) x) = length x"
  by (induction n) simp_all

lemma funpow_round_body_ref:
  "length x = 16 \<Longrightarrow> (round_body ^^ n) x = (double_round_ref ^^ n) x"
  by (induction n) (simp_all add: round_body_ref)

lemma chacha20_block_eq_ref:
  assumes "length input = 16"
  shows "chacha20_block input = chacha20_block_ref input"
proof -
  have copy: "map (\<lambda>i. input ! i) [0..<16] = input"
    using assms map_nth [of input] by simp
  let ?r = "(double_round_ref ^^ 10) input"
  have "map (\<lambda>i. ?r ! i + input ! i) [0..<16] = map2 (+) ?r input"
    using assms by (intro nth_equalityI) simp_all
  then show ?thesis
    using assms
    by (simp add: chacha20_block_def chacha20_block_ref_def copy fold_const_funpow
        funpow_round_body_ref Let_def)
qed

text \<open>
  Claim C5.  For every input state of sixteen words, \<open>chacha20_block\<close> as the source
  computes it, with in-place updates of the array and rotations written as shifts, equals
  the reference definition: ten double rounds, each four column quarter-rounds then four
  diagonal quarter-rounds, a quarter-round being the twelve steps
  \<open>a+=b; d^=a; d=rotl(d,16); c+=d; b^=c; b=rotl(b,12); a+=b; d^=a; d=rotl(d,8); c+=d;
  b^=c; b=rotl(b,7)\<close> modulo \<open>2^32\<close>, followed by the word-wise wrapping addition of
  the input state.
\<close>

theorem chacha20_block_refines_reference:
  assumes "length input = 16"
  shows "chacha20_block input = chacha20_block_ref input"
  using assms by (rule chacha20_block_eq_ref)

theorem chacha20_block_refines_reference_witness:
  "length [0x61707865, 0x3320646e, 0x79622d32, 0x6b206574, 1, 2, 3, 4, 5, 6, 7, 8, 1, 0, 9, 10 :: u32] = 16 \<and>
   chacha20_block [0x61707865, 0x3320646e, 0x79622d32, 0x6b206574, 1, 2, 3, 4, 5, 6, 7, 8, 1, 0, 9, 10] =
   chacha20_block_ref [0x61707865, 0x3320646e, 0x79622d32, 0x6b206574, 1, 2, 3, 4, 5, 6, 7, 8, 1, 0, 9, 10]"
  using chacha20_block_refines_reference
    [of "[0x61707865, 0x3320646e, 0x79622d32, 0x6b206574, 1, 2, 3, 4, 5, 6, 7, 8, 1, 0, 9, 10]"]
  by simp

section \<open>What the decryption routine writes\<close>

lemma fold_update_length [simp]:
  "length (fold (\<lambda>k d. d[f k := g k d]) ks xs) = length xs"
  by (induction ks arbitrary: xs) simp_all

lemma length_memcpy_words [simp]: "length (memcpy_words dst at src n) = length dst"
  by (simp add: memcpy_words_def)

lemma fold_store_nth:
  "m < length d \<Longrightarrow>
   fold (\<lambda>k d. d[at + k := v k]) [0..<n] d ! m =
     (if at \<le> m \<and> m < at + n then v (m - at) else d ! m)"
proof (induction n)
  case 0
  then show ?case by auto
next
  case (Suc n)
  have len: "length (fold (\<lambda>k d. d[at + k := v k]) [0..<n] d) = length d"
    by simp
  show ?case
  proof (cases "m = at + n")
    case True
    with Suc.prems len show ?thesis by simp
  next
    case False
    with Suc show ?thesis by (auto simp: nth_list_update)
  qed
qed

lemma memcpy_words_nth:
  "m < length dst \<Longrightarrow>
   memcpy_words dst at src n ! m =
     (if at \<le> m \<and> m < at + n div 4 then load_le32 src (m - at) else dst ! m)"
  by (simp add: memcpy_words_def fold_store_nth)

lemma length_initial_state [simp]: "length initial_state = 16"
  by (simp add: initial_state_def)

lemma length_keyed_state [simp]: "length (keyed_state key nonce) = 16"
  by (simp add: keyed_state_def)

lemma keyed_state_counter: "keyed_state key nonce ! 12 = 0"
  by (simp add: keyed_state_def memcpy_words_nth initial_state_def)

lemma length_xor_chunk [simp]: "length (xor_chunk ks input i chunk output) = length output"
  by (simp add: xor_chunk_def)

lemma xor_chunk_nth:
  "k < length output \<Longrightarrow>
   xor_chunk ks input i chunk output ! k =
     (if i \<le> k \<and> k < i + chunk then input ! k XOR keystream_byte ks (k - i) else output ! k)"
proof -
  assume k: "k < length output"
  have "fold (\<lambda>j out. out[i + j := input ! (i + j) XOR keystream_byte ks j]) [0..<chunk] output ! k =
      (if i \<le> k \<and> k < i + chunk then (\<lambda>j. input ! (i + j) XOR keystream_byte ks j) (k - i) else output ! k)"
    using k by (rule fold_store_nth)
  then show ?thesis by (auto simp: xor_chunk_def)
qed

lemma length_decrypt_loop [simp]:
  "length (decrypt_loop i len input state out) = length out"
  by (induction i len input state out rule: decrypt_loop.induct)
     (subst decrypt_loop.simps, simp add: Let_def)

lemma decrypt_loop_nth:
  "k < length out \<Longrightarrow> 12 < length state \<Longrightarrow>
   decrypt_loop i len input state out ! k =
     (if i \<le> k \<and> k < len
      then input ! k XOR
           keystream_byte (chacha20_block (state[12 := state ! 12 + of_nat ((k - i) div 64 + 1)]))
             ((k - i) mod 64)
      else out ! k)"
proof (induction i len input state out rule: decrypt_loop.induct)
  case (1 i len input state out)
  show ?case
  proof (cases "i < len")
    case False
    then show ?thesis by (subst decrypt_loop.simps) auto
  next
    case True
    define state' where "state' = state[12 := state ! 12 + 1]"
    define chunk where "chunk = (if len - i < 64 then len - i else 64)"
    define out' where "out' = xor_chunk (chacha20_block state') input i chunk out"
    have unfold: "decrypt_loop i len input state out = decrypt_loop (i + 64) len input state' out'"
      using True by (subst decrypt_loop.simps) (simp add: Let_def state'_def chunk_def out'_def)
    have IH: "decrypt_loop (i + 64) len input state' out' ! k =
     (if i + 64 \<le> k \<and> k < len
      then input ! k XOR
           keystream_byte (chacha20_block (state'[12 := state' ! 12 + of_nat ((k - (i + 64)) div 64 + 1)]))
             ((k - (i + 64)) mod 64)
      else out' ! k)"
      using "1.IH" [OF True state'_def refl chunk_def out'_def] "1.prems"
      by (simp add: out'_def state'_def)
    show ?thesis
    proof (cases "i + 64 \<le> k")
      case far: True
      then have d: "(k - i) div 64 = (k - (i + 64)) div 64 + 1" and m: "(k - i) mod 64 = (k - (i + 64)) mod 64"
        using le_div_geq [of 64 "k - i"] le_mod_geq [of 64 "k - i"] by simp_all
      have "state'[12 := state' ! 12 + of_nat ((k - (i + 64)) div 64 + 1)] =
            state[12 := state ! 12 + of_nat ((k - i) div 64 + 1)]"
        using "1.prems" by (simp add: state'_def d add.assoc)
      moreover have "out' ! k = out ! k"
        unfolding out'_def using "1.prems" far by (simp add: xor_chunk_nth chunk_def)
      ultimately show ?thesis using far unfolding unfold IH by (simp add: m)
    next
      case near: False
      have "out' ! k = (if i \<le> k \<and> k < i + chunk
          then input ! k XOR keystream_byte (chacha20_block state') (k - i) else out ! k)"
        unfolding out'_def using "1.prems" by (simp add: xor_chunk_nth)
      moreover have "i \<le> k \<and> k < i + chunk \<longleftrightarrow> i \<le> k \<and> k < len"
        using near True by (auto simp: chunk_def)
      moreover have "i \<le> k \<Longrightarrow> (k - i) div 64 = 0 \<and> (k - i) mod 64 = k - i"
        using near by simp
      ultimately show ?thesis unfolding unfold IH using near
        by (auto simp: state'_def)
    qed
  qed
qed

lemma length_chacha20_decrypt [simp]:
  "length (chacha20_decrypt output input len key nonce) = length output"
  by (simp add: chacha20_decrypt_def)

lemma chacha20_decrypt_nth:
  "k < length output \<Longrightarrow>
   chacha20_decrypt output input len key nonce ! k =
     (if k < len
      then input ! k XOR
           keystream_byte (chacha20_block ((keyed_state key nonce)[12 := of_nat (k div 64 + 1)]))
             (k mod 64)
      else output ! k)"
  by (simp add: chacha20_decrypt_def decrypt_loop_nth keyed_state_counter)


lemma chacha20_decrypt_any_buffer:
  assumes "length out1 = length out2" "len \<le> length out1"
  shows "take len (chacha20_decrypt out1 input len key nonce) =
         take len (chacha20_decrypt out2 input len key nonce)"
  using assms by (intro nth_equalityI) (simp_all add: chacha20_decrypt_nth)

lemma chacha20_decrypt_input_prefix:
  assumes "take len input1 = take len input2"
  shows "chacha20_decrypt out input1 len key nonce = chacha20_decrypt out input2 len key nonce"
proof (intro nth_equalityI)
  fix k assume "k < length (chacha20_decrypt out input1 len key nonce)"
  then have k: "k < length out" by simp
  have "k < len \<Longrightarrow> input1 ! k = input2 ! k"
    using assms by (metis nth_take)
  with k show "chacha20_decrypt out input1 len key nonce ! k = chacha20_decrypt out input2 len key nonce ! k"
    by (simp add: chacha20_decrypt_nth)
qed simp

lemma load_le32_cong:
  assumes "\<And>i. i < 4 * Suc k \<Longrightarrow> src1 ! i = src2 ! i"
  shows "load_le32 src1 k = load_le32 src2 k"
  by (simp add: load_le32_def assms)

lemma keyed_state_nonce_prefix:
  assumes "\<And>i. i < 8 \<Longrightarrow> nonce1 ! i = nonce2 ! i"
  shows "keyed_state key nonce1 = keyed_state key nonce2"
proof (intro nth_equalityI)
  fix m assume "m < length (keyed_state key nonce1)"
  then have m: "m < 16" by simp
  have "load_le32 nonce1 (m - 14) = load_le32 nonce2 (m - 14)" if "14 \<le> m"
    using that m assms by (intro load_le32_cong) simp
  with m show "keyed_state key nonce1 ! m = keyed_state key nonce2 ! m"
    by (simp add: keyed_state_def memcpy_words_nth)
qed simp

lemma fold_store0_nth:
  "m < length d \<Longrightarrow>
   fold (\<lambda>k d. d[k := v k]) [0..<n] d ! m = (if m < n then v m else d ! m)"
  using fold_store_nth [of m d 0 v n] by simp

lemma length_deobfuscate_key [simp]: "length (deobfuscate_key km key) = length key"
  by (simp add: deobfuscate_key_def)

lemma deobfuscate_key_nth:
  "i < 32 \<Longrightarrow> length key = 32 \<Longrightarrow>
   deobfuscate_key km key ! i = km ! i XOR km ! (32 + i)"
  by (simp add: deobfuscate_key_def fold_store0_nth)

lemma deobfuscate_key_any_array:
  assumes "length key1 = 32" "length key2 = 32"
  shows "deobfuscate_key km key1 = deobfuscate_key km key2"
  using assms by (intro nth_equalityI) (simp_all add: deobfuscate_key_nth)

text \<open>
  Claim C7.  For every 64-byte key material, whatever the local array \<open>key\<close> held
  before, the loop leaves \<open>key[i] = KEY_MATERIAL[i] xor KEY_MATERIAL[32 + i]\<close> for
  every \<open>i\<close> below 32.
\<close>

theorem deobfuscated_key_bytes:
  assumes "length KEY_MATERIAL = 64" "length key = 32"
  shows "length (deobfuscate_key KEY_MATERIAL key) = 32 \<and>
         (\<forall>i<32. deobfuscate_key KEY_MATERIAL key ! i = KEY_MATERIAL ! i XOR KEY_MATERIAL ! (32 + i))"
  using assms by (simp add: deobfuscate_key_nth)

theorem deobfuscated_key_bytes_witness:
  "length (replicate 32 0xA5 @ replicate 32 (0x3C :: u8)) = 64 \<and>
   length (replicate 32 (0 :: u8)) = 32 \<and>
   length (deobfuscate_key (replicate 32 0xA5 @ replicate 32 0x3C) (replicate 32 0)) = 32 \<and>
   deobfuscate_key (replicate 32 0xA5 @ replicate 32 0x3C) (replicate 32 0) ! 0 =
     (replicate 32 0xA5 @ replicate 32 0x3C) ! 0 XOR (replicate 32 0xA5 @ replicate 32 0x3C) ! (32 + 0) \<and>
   deobfuscate_key (replicate 32 0xA5 @ replicate 32 0x3C) (replicate 32 0) ! 31 =
     (replicate 32 0xA5 @ replicate 32 0x3C) ! 31 XOR (replicate 32 0xA5 @ replicate 32 0x3C) ! (32 + 31)"
proof -
  have h: "length (replicate 32 0xA5 @ replicate 32 (0x3C :: u8)) = 64"
    "length (replicate 32 (0 :: u8)) = 32"
    by simp_all
  have i: "(0 :: nat) < 32" "(31 :: nat) < 32"
    by simp_all
  from deobfuscated_key_bytes [OF h] h i show ?thesis by blast
qed

text \<open>
  Claim C2.  For every message of \<open>len\<close> bytes (a \<open>size_t\<close> of the 32-bit target),
  byte \<open>j\<close> of chunk \<open>i\<close> (counted from 0) of the output is the input byte xored
  with byte \<open>j\<close> of the block generated from the state whose counter word, word 12, is
  \<open>i + 1\<close>: the counter is zero after the set-up and is incremented before each block,
  so the first chunk uses counter 1.
\<close>

theorem chunk_counter_starts_at_one:
  assumes "len \<le> length out" "len < 2 ^ 32" "64 * i + j < len" "j < 64"
  shows "keyed_state key nonce ! 12 = 0 \<and>
         unat (word_of_nat (i + 1) :: u32) = i + 1 \<and>
         chacha20_decrypt out input len key nonce ! (64 * i + j) =
           input ! (64 * i + j) XOR
           keystream_byte (chacha20_block ((keyed_state key nonce)[12 := word_of_nat (i + 1)])) j"
proof -
  have "i + 1 < 2 ^ 32" using assms by simp
  then have "unat (word_of_nat (i + 1) :: u32) = i + 1"
    by (intro of_nat_inverse [OF refl]) simp
  moreover have "(64 * i + j) div 64 = i" "(64 * i + j) mod 64 = j"
    using assms(4) by simp_all
  ultimately show ?thesis
    using assms by (simp add: chacha20_decrypt_nth keyed_state_counter del: of_nat_add of_nat_Suc)
qed

theorem chunk_counter_starts_at_one_witness:
  "(100 :: nat) \<le> length (replicate 100 (0 :: u8)) \<and> (100 :: nat) < 2 ^ 32 \<and>
   64 * 1 + 5 < (100 :: nat) \<and> (5 :: nat) < 64 \<and>
   keyed_state (replicate 32 7) (replicate 8 9) ! 12 = 0 \<and>
   unat (word_of_nat (1 + 1) :: u32) = 1 + 1 \<and>
   chacha20_decrypt (replicate 100 0) (replicate 100 0x41) 100 (replicate 32 7) (replicate 8 9) ! (64 * 1 + 5) =
     replicate 100 0x41 ! (64 * 1 + 5) XOR
     keystream_byte
       (chacha20_block ((keyed_state (replicate 32 7) (replicate 8 9))[12 := word_of_nat (1 + 1)])) 5"
proof -
  have h: "(100 :: nat) \<le> length (replicate 100 (0 :: u8))" "(100 :: nat) < 2 ^ 32"
    "64 * 1 + 5 < (100 :: nat)" "(5 :: nat) < 64"
    by simp_all
  from chunk_counter_starts_at_one [OF h, of "replicate 32 7" "replicate 8 9" "replicate 100 0x41"] h
  show ?thesis by blast
qed

text \<open>
  Claim C6.  For every key, nonce and byte sequence \<open>p\<close>, decrypting twice with the same
  key and nonce gives \<open>p\<close> back: the xor with the keystream is its own inverse.  The
  buffers the two calls write to may hold anything before.
\<close>

theorem chacha20_decrypt_self_inverse:
  assumes "length p = len" "length out1 = len" "length out2 = len"
  shows "chacha20_decrypt out2 (chacha20_decrypt out1 p len key nonce) len key nonce = p"
  using assms by (intro nth_equalityI) (simp_all add: chacha20_decrypt_nth xor.assoc)


theorem chacha20_decrypt_self_inverse_witness:
  "length [0x53, 0x44, 0x4E :: u8] = 3 \<and> length [0, 0, 0 :: u8] = 3 \<and> length [1, 2, 3 :: u8] = 3 \<and>
   chacha20_decrypt [1, 2, 3]
     (chacha20_decrypt [0, 0, 0] [0x53, 0x44, 0x4E] 3 (replicate 32 7) (replicate 8 9))
     3 (replicate 32 7) (replicate 8 9) = [0x53, 0x44, 0x4E]"
proof -
  have h: "length [0x53, 0x44, 0x4E :: u8] = 3" "length [0, 0, 0 :: u8] = 3" "length [1, 2, 3 :: u8] = 3"
    by simp_all
  from chacha20_decrypt_self_inverse [OF h, of "replicate 32 7" "replicate 8 9"] h
  show ?thesis by blast
qed

section \<open>One keystream block, evaluated\<close>

lemma rotl_eval:
  assumes "0 < n" "n < 32"
  shows "rotl w n = word_of_nat (take_bit 32 (push_bit n (unat w))) OR word_of_nat (drop_bit (32 - n) (unat w))"
proof -
  have "(word_of_nat (take_bit 32 (push_bit n (unat w))) :: u32) = word_of_nat (push_bit n (unat w))"
    by (simp add: word_of_nat_eq_iff)
  also have "\<dots> = push_bit n (word_of_nat (unat w))"
    by (simp only: push_bit_of_nat)
  finally have "(word_of_nat (take_bit 32 (push_bit n (unat w))) :: u32) = push_bit n w"
    by simp
  moreover have "(word_of_nat (drop_bit (32 - n) (unat w)) :: u32) = drop_bit (32 - n) w"
    by (simp flip: unat_drop_bit_eq)
  ultimately show ?thesis using shift_or_rotl [OF assms, of w] by simp
qed

lemmas rotl_numeral =
  rotl_eval [of 16 "numeral k", simplified] rotl_eval [of 12 "numeral k", simplified]
  rotl_eval [of 8 "numeral k", simplified] rotl_eval [of 7 "numeral k", simplified]
  rotl_eval [of 16 0, simplified] rotl_eval [of 12 0, simplified]
  rotl_eval [of 8 0, simplified] rotl_eval [of 7 0, simplified]
  rotl_eval [of 16 1, simplified] rotl_eval [of 12 1, simplified]
  rotl_eval [of 8 1, simplified] rotl_eval [of 7 1, simplified] for k


lemma double_round_ref_list:
  assumes "quarter_round_ref (xa, xe, xi, xm) = (ma, me, mi, mm)"
    and "quarter_round_ref (xb, xf, xj, xn) = (mb, mf, mj, mn)"
    and "quarter_round_ref (xc, xg, xk, xo) = (mc, mg, mk, mo)"
    and "quarter_round_ref (xd, xh, xl, xp) = (md, mh, ml, mp)"
    and "quarter_round_ref (ma, mf, mk, mp) = (ya, yf, yk, yp)"
    and "quarter_round_ref (mb, mg, ml, mm) = (yb, yg, yl, ym)"
    and "quarter_round_ref (mc, mh, mi, mn) = (yc, yh, yi, yn)"
    and "quarter_round_ref (md, me, mj, mo) = (yd, ye, yj, yo)"
  shows "double_round_ref [xa, xb, xc, xd, xe, xf, xg, xh, xi, xj, xk, xl, xm, xn, xo, xp] =
       [ya, yb, yc, yd, ye, yf, yg, yh, yi, yj, yk, yl, ym, yn, yo, yp]"
proof -
  have cols: "map column_group [0..<4] = [(0,4,8,12), (1,5,9,13), (2,6,10,14), (3,7,11,15)]"
    by (simp add: column_group_def upt_conv_Cons)
  have diags: "map diagonal_group [0..<4] = [(0,5,10,15), (1,6,11,12), (2,7,8,13), (3,4,9,14)]"
    by (simp add: diagonal_group_def upt_conv_Cons)
  show ?thesis
    unfolding double_round_ref_def cols diags
    by (simp add: apply_quarter_round_def assms)
qed

lemma quarter_round_ref_tuple:
  "quarter_round_ref (a, b, c, d) =
    (let a = a + b; d = d XOR a; d = rotl d 16;
         c = c + d; b = b XOR c; b = rotl b 12;
         a = a + b; d = d XOR a; d = rotl d 8;
         c = c + d; b = b XOR c; b = rotl b 7
     in (a, b, c, d))"
  by (simp add: quarter_round_ref_def)


lemma ten_double_rounds_zero_key:
  "(double_round_ref ^^ 10)
     [0x61707865, 0x3320646e, 0x79622d32, 0x6b206574, 0, 0, 0, 0,
      0, 0, 0, 0, 1, 0, 0, 0] =
     [0x5d768f3a, 0x4717ece7, 0x03358d66, 0xa1e7c7ff, 0xa0290fcb, 0x6965e348, 0x3e53c612, 0xed7aee32,
      0x7621b729, 0x434ee69c, 0xb03371d5, 0xd539d874, 0x281fed30, 0x45fb0a51, 0x1f0ae1ac, 0x6f4d794b]"
proof -
  have r1:
    "double_round_ref
       [0x61707865, 0x3320646e, 0x79622d32, 0x6b206574, 0, 0, 0, 0,
        0, 0, 0, 0, 1, 0, 0, 0] =
       [0xd35fd249, 0x1be820a9, 0xd31f88da, 0x8e7f397f, 0xc1bf4b8a, 0xfeb74a18, 0xa1f753eb, 0xf91e808c,
        0x578cda2e, 0x042c17b1, 0x010a06a9, 0x49f7792a, 0x2bbe8409, 0xc63023e6, 0xab8f9939, 0x87d62152]"
    by (rule double_round_ref_list
        [where ma = "0xa7877feb" and mb = "0x16526ab4" and mc = "0xa0f85005" and md = "0xb1d26bcb" and
          me = "0xcafd648e" and mf = "0xfae0ea21" and mg = "0x66e11e68" and mh = "0xe3a851a6" and
          mi = "0x5b82fd4f" and mj = "0xa0c7c792" and mk = "0xf75be0ef" and ml = "0x0b7556f4" and
          mm = "0xe31e9bdf" and mn = "0x3c599472" and mo = "0xca29678d" and mp = "0xa600ebd4"])
      (simp_all add: quarter_round_ref_tuple rotl_numeral Let_def cong: let_weak_cong)
  have r2:
    "double_round_ref
       [0xd35fd249, 0x1be820a9, 0xd31f88da, 0x8e7f397f, 0xc1bf4b8a, 0xfeb74a18, 0xa1f753eb, 0xf91e808c,
        0x578cda2e, 0x042c17b1, 0x010a06a9, 0x49f7792a, 0x2bbe8409, 0xc63023e6, 0xab8f9939, 0x87d62152] =
       [0xbc389fa8, 0xb9ba7055, 0x3085e7bd, 0x009ee8cf, 0x0ab5eecd, 0x3111471a, 0x86b484ee, 0x7f517f6d,
        0x47323b48, 0x1289b2d8, 0xf81f7778, 0xad21d4ee, 0x6fb0164a, 0xadd42d2e, 0x81ed68a2, 0x66145871]"
    by (rule double_round_ref_list
        [where ma = "0x225370e0" and mb = "0x6686f5ff" and mc = "0x90817b34" and md = "0x773d4bcf" and
          me = "0x00c4c3fb" and mf = "0xcd67d8d2" and mg = "0xe306bc6f" and mh = "0x0237d2d3" and
          mi = "0x7b35da8a" and mj = "0xee7d448f" and mk = "0xc4ac9317" and ml = "0x499bfe61" and
          mm = "0x89ce41bb" and mn = "0xa129502f" and mo = "0x7da5add5" and mp = "0x644b84ec"])
      (simp_all add: quarter_round_ref_tuple rotl_numeral Let_def cong: let_weak_cong)
  have r3:
    "double_round_ref
       [0xbc389fa8, 0xb9ba7055, 0x3085e7bd, 0x009ee8cf, 0x0ab5eecd, 0x3111471a, 0x86b484ee, 0x7f517f6d,
        0x47323b48, 0x1289b2d8, 0xf81f7778, 0xad21d4ee, 0x6fb0164a, 0xadd42d2e, 0x81ed68a2, 0x66145871] =
       [0x05ef5f24, 0x0a23c120, 0xf0ab6935, 0xe071f61f, 0xe2a62d59, 0x57de135b, 0x25e917b1, 0x97526658,
        0xcf306ca2, 0x5dc44a81, 0xe020206c, 0xc89e2f10, 0x5d348f46, 0x50e06f03, 0x48e9dd8c, 0x7cb1007c]"
    by (rule double_round_ref_list
        [where ma = "0x07954bd1" and mb = "0xa6ba914c" and mc = "0x79e48454" and md = "0x790c625f" and
          me = "0x79648ce5" and mf = "0xa7ca7709" and mg = "0xb8933295" and mh = "0xf8a81c73" and
          mi = "0x8a547445" and mj = "0xa8a14d33" and mk = "0xe9db31cc" and ml = "0x1eeaaa1b" and
          mm = "0xaae28f9f" and mn = "0xfbd6533c" and mo = "0xedb2837d" and mp = "0x417bbb49"])
      (simp_all add: quarter_round_ref_tuple rotl_numeral Let_def cong: let_weak_cong)
  have r4:
    "double_round_ref
       [0x05ef5f24, 0x0a23c120, 0xf0ab6935, 0xe071f61f, 0xe2a62d59, 0x57de135b, 0x25e917b1, 0x97526658,
        0xcf306ca2, 0x5dc44a81, 0xe020206c, 0xc89e2f10, 0x5d348f46, 0x50e06f03, 0x48e9dd8c, 0x7cb1007c] =
       [0xac8a366d, 0x1ea1417c, 0xf378dd8d, 0x42858c8d, 0x1258fdc0, 0xaaa2f959, 0x8f0ff2dc, 0x6ba266d5,
        0x38ec3250, 0x98dac5bb, 0x566f0cee, 0x652a878b, 0x25bf8a9f, 0xbb21eb1d, 0xd8e5564b, 0xaa681e82]"
    by (rule double_round_ref_list
        [where ma = "0x89872f89" and mb = "0x88e56969" and mc = "0x4d2a026c" and md = "0x2d9237b6" and
          me = "0xfbf4e097" and mf = "0x3dc8bdc8" and mg = "0xb9873fa5" and mh = "0x14136484" and
          mi = "0x8f064acd" and mj = "0xb6980595" and mk = "0x7de68ff9" and ml = "0xbde5fdf6" and
          mm = "0xbc9a288a" and mn = "0x9d5b8833" and mo = "0x405c1110" and mp = "0x993cc371"])
      (simp_all add: quarter_round_ref_tuple rotl_numeral Let_def cong: let_weak_cong)
  have r5:
    "double_round_ref
       [0xac8a366d, 0x1ea1417c, 0xf378dd8d, 0x42858c8d, 0x1258fdc0, 0xaaa2f959, 0x8f0ff2dc, 0x6ba266d5,
        0x38ec3250, 0x98dac5bb, 0x566f0cee, 0x652a878b, 0x25bf8a9f, 0xbb21eb1d, 0xd8e5564b, 0xaa681e82] =
       [0xb42c1d68, 0x2a9852a5, 0x7d93a117, 0x44f144cd, 0xe6eb9a9e, 0x15e413ae, 0xea58f506, 0x6af9e90c,
        0x6a11b951, 0x550c057d, 0x362c3849, 0xdd4ff2ff, 0x9753c1f0, 0x33387c9b, 0x995bfdf9, 0x074fae3b]"
    by (rule double_round_ref_list
        [where ma = "0x21ea0289" and mb = "0xe55bd6d5" and mc = "0x6be145a2" and md = "0x3cf8e6ec" and
          me = "0x9f368b99" and mf = "0x283a2a71" and mg = "0x74a138bb" and mh = "0x9eee10f2" and
          mi = "0x5038a34b" and mj = "0xfe47e854" and mk = "0x9fb13748" and ml = "0x6bed2fab" and
          mm = "0x5899d59f" and mn = "0x93a4b034" and mo = "0xc31fcfed" and mp = "0x18e2a3d1"])
      (simp_all add: quarter_round_ref_tuple rotl_numeral Let_def cong: let_weak_cong)
  have r6:
    "double_round_ref
       [0xb42c1d68, 0x2a9852a5, 0x7d93a117, 0x44f144cd, 0xe6eb9a9e, 0x15e413ae, 0xea58f506, 0x6af9e90c,
        0x6a11b951, 0x550c057d, 0x362c3849, 0xdd4ff2ff, 0x9753c1f0, 0x33387c9b, 0x995bfdf9, 0x074fae3b] =
       [0xe0185ca6, 0xcb53d9b2, 0xba0fcf54, 0xd1f77b18, 0xb7eb28c6, 0xcccbbd19, 0x21851515, 0xb489c04c,
        0xcd8d2542, 0x11f14ca1, 0x97b802c6, 0x43c88c1b, 0xca461ee8, 0xc0515190, 0xb0a64427, 0x1693e617]"
    by (rule double_round_ref_list
        [where ma = "0x61086834" and mb = "0x47335df6" and mc = "0x040cfaa1" and md = "0x67161e95" and
          me = "0xce42c193" and mf = "0xdaee5eb6" and mg = "0x1a94f58b" and mh = "0x611e9df1" and
          mi = "0xe26c35ad" and mj = "0x6b032b1e" and mk = "0x8a154d6f" and ml = "0x55e8cd87" and
          mm = "0xfe647018" and mn = "0xfb2eb25d" and mo = "0xe804166f" and mp = "0xf4b631e4"])
      (simp_all add: quarter_round_ref_tuple rotl_numeral Let_def cong: let_weak_cong)
  have r7:
    "double_round_ref
       [0xe0185ca6, 0xcb53d9b2, 0xba0fcf54, 0xd1f77b18, 0xb7eb28c6, 0xcccbbd19, 0x21851515, 0xb489c04c,
        0xcd8d2542, 0x11f14ca1, 0x97b802c6, 0x43c88c1b, 0xca461ee8, 0xc0515190, 0xb0a64427, 0x1693e617] =
       [0x60a60bc8, 0x6ec9672b, 0x2209abd8, 0x69d051e2, 0xedf64dab, 0x29ebbeeb, 0x66ffb963, 0xbf25d0f9,
        0xd8039cf3, 0x5d98f77c, 0xbf27a2fb, 0xe89faa4d, 0x8354ad61, 0x41b8f39b, 0x9863b26f, 0xddc83d5b]"
    by (rule double_round_ref_list
        [where ma = "0x3df7a35b" and mb = "0x09bef823" and mc = "0x1323b601" and md = "0xe44754bf" and
          me = "0x7b45e13c" and mf = "0xb939f2e7" and mg = "0x36b819c9" and mh = "0xe3681e85" and
          mi = "0xdd02962d" and mj = "0xbeed12bd" and mk = "0xa5e3a1ab" and ml = "0x5600c966" and
          mm = "0x73f11ea6" and mn = "0xe5a06dce" and mo = "0x6ddd33b3" and mp = "0x34c4ad39"])
      (simp_all add: quarter_round_ref_tuple rotl_numeral Let_def cong: let_weak_cong)
  have r8:
    "double_round_ref
       [0x60a60bc8, 0x6ec9672b, 0x2209abd8, 0x69d051e2, 0xedf64dab, 0x29ebbeeb, 0x66ffb963, 0xbf25d0f9,
        0xd8039cf3, 0x5d98f77c, 0xbf27a2fb, 0xe89faa4d, 0x8354ad61, 0x41b8f39b, 0x9863b26f, 0xddc83d5b] =
       [0x1c81d118, 0x07845da3, 0xfb871f9b, 0xb8b34dc7, 0x7b49be25, 0x0953c57a, 0x965786f7, 0xb0fb0aed,
        0x476c8add, 0x01145374, 0xcda1da32, 0xa0a37f22, 0x55f5c1d3, 0xee567c96, 0x12acd21c, 0x835e6d3a]"
    by (rule double_round_ref_list
        [where ma = "0x510d5b91" and mb = "0x6f9b47c2" and mc = "0xc9d9d443" and md = "0x7ded4e4b" and
          me = "0xeee33f74" and mf = "0x91c0f7cf" and mg = "0x485945b2" and mh = "0x959fce90" and
          mi = "0xebacc460" and mj = "0x49c5a043" and mk = "0x2440dd83" and ml = "0x75dc14ed" and
          mm = "0x1f9659a5" and mn = "0x169ecfba" and mo = "0x8dc5291e" and mp = "0x6dbb7562"])
      (simp_all add: quarter_round_ref_tuple rotl_numeral Let_def cong: let_weak_cong)
  have r9:
    "double_round_ref
       [0x1c81d118, 0x07845da3, 0xfb871f9b, 0xb8b34dc7, 0x7b49be25, 0x0953c57a, 0x965786f7, 0xb0fb0aed,
        0x476c8add, 0x01145374, 0xcda1da32, 0xa0a37f22, 0x55f5c1d3, 0xee567c96, 0x12acd21c, 0x835e6d3a] =
       [0xf6bd6d42, 0xceac8e45, 0x31c3c9fa, 0x2cabcdb8, 0x7890ac70, 0xff064758, 0x9195d152, 0x46ccea8d,
        0xacc4140f, 0x7a52e40d, 0xde42a7a8, 0xd7611c5a, 0x69c393a8, 0xf676d73f, 0xb342d08e, 0x6bdae7e4]"
    by (rule double_round_ref_list
        [where ma = "0xc6ff7e0e" and mb = "0x4a4fa9bc" and mc = "0x0f93e3d8" and md = "0xffbe4f20" and
          me = "0x9249b943" and mf = "0xc001440e" and mg = "0x121aac91" and mh = "0x6be65848" and
          mi = "0xa8177da3" and mj = "0x24f78417" and mk = "0x5f91081f" and ml = "0x06d83adc" and
          mm = "0x11bc3088" and mn = "0xc4573215" and mo = "0x1d60aa7b" and mp = "0x30a5d0ca"])
      (simp_all add: quarter_round_ref_tuple rotl_numeral Let_def cong: let_weak_cong)
  have r10:
    "double_round_ref
       [0xf6bd6d42, 0xceac8e45, 0x31c3c9fa, 0x2cabcdb8, 0x7890ac70, 0xff064758, 0x9195d152, 0x46ccea8d,
        0xacc4140f, 0x7a52e40d, 0xde42a7a8, 0xd7611c5a, 0x69c393a8, 0xf676d73f, 0xb342d08e, 0x6bdae7e4] =
       [0x5d768f3a, 0x4717ece7, 0x03358d66, 0xa1e7c7ff, 0xa0290fcb, 0x6965e348, 0x3e53c612, 0xed7aee32,
        0x7621b729, 0x434ee69c, 0xb03371d5, 0xd539d874, 0x281fed30, 0x45fb0a51, 0x1f0ae1ac, 0x6f4d794b]"
    by (rule double_round_ref_list
        [where ma = "0x5abcde96" and mb = "0x033b6ddc" and mc = "0xcfc2b705" and md = "0x615fcf61" and
          me = "0x6c79441b" and mf = "0xe1d7f691" and mg = "0x5296ff13" and mh = "0x1f77936c" and
          mi = "0xddb6366c" and mj = "0x164b37d2" and mk = "0x2acc3647" and ml = "0x35d9f83a" and
          mm = "0xa6d81bd0" and mn = "0x99561801" and mo = "0x00c71e84" and mp = "0xfed7c33e"])
      (simp_all add: quarter_round_ref_tuple rotl_numeral Let_def cong: let_weak_cong)
  show ?thesis
    by (simp add: eval_nat_numeral r1 r2 r3 r4 r5 r6 r7 r8 r9 r10)
qed

text \<open>
  The first keystream block of the all-zero key and nonce, counter 1: the published
  test vector of the cipher, whose first bytes are \<open>9f 07 e7 be 55 51 38 7a\<close>.
\<close>

lemma chacha20_block_zero_key:
  "chacha20_block
     [0x61707865, 0x3320646e, 0x79622d32, 0x6b206574, 0, 0, 0, 0,
      0, 0, 0, 0, 1, 0, 0, 0] =
     [0xbee7079f, 0x7a385155, 0x7c97ba98, 0x0d082d73, 0xa0290fcb, 0x6965e348, 0x3e53c612, 0xed7aee32,
      0x7621b729, 0x434ee69c, 0xb03371d5, 0xd539d874, 0x281fed31, 0x45fb0a51, 0x1f0ae1ac, 0x6f4d794b]"
  by (simp add: chacha20_block_eq_ref chacha20_block_ref_def ten_double_rounds_zero_key)

section \<open>The pipeline and the cache\<close>

lemma length_decrypt_pipeline [simp]:
  "length (decrypt_pipeline km er) = length er - 24 - 16 + 1"
  by (simp add: decrypt_pipeline_def Let_def)

lemma length_decrypted_bytes [simp]:
  "length (decrypted_bytes km er) = length er - 24 - 16"
  by (simp add: decrypted_bytes_def)

lemma decrypt_pipeline_terminated:
  "decrypt_pipeline km er = decrypted_bytes km er @ [0]"
proof (intro nth_equalityI)
  fix k assume "k < length (decrypt_pipeline km er)"
  then have "k < length er - 24 - 16 \<or> k = length er - 24 - 16" by auto
  then show "decrypt_pipeline km er ! k = (decrypted_bytes km er @ [0]) ! k"
  proof
    assume "k < length er - 24 - 16"
    then show ?thesis by (simp add: decrypted_bytes_def nth_append)
  next
    assume "k = length er - 24 - 16"
    then show ?thesis by (simp add: nth_append) (simp add: decrypt_pipeline_def Let_def)
  qed
qed simp

lemma decrypted_bytes_chacha20:
  "decrypted_bytes km er =
     chacha20_decrypt (replicate (length er - 24 - 16) 0) (ciphertext_bytes er) (length er - 24 - 16)
       (deobfuscate_key km (replicate 32 0)) er"
  by (intro nth_equalityI)
     (simp_all add: decrypted_bytes_def decrypt_pipeline_def ciphertext_bytes_def Let_def
        chacha20_decrypt_nth)

lemma decrypted_bytes_nth:
  assumes "40 \<le> length er" "k < length er - 24 - 16"
  shows "decrypted_bytes km er ! k =
     er ! (24 + k) XOR
     keystream_byte
       (chacha20_block ((keyed_state (deobfuscate_key km (replicate 32 0)) er)[12 := of_nat (k div 64 + 1)]))
       (k mod 64)"
  using assms
  by (simp add: decrypted_bytes_chacha20 chacha20_decrypt_nth ciphertext_bytes_def)

lemma c_string_terminated: "c_string (d @ [0]) = c_string d"
  by (induction d) (simp_all add: c_string_def)

lemma c_string_pipeline:
  "c_string (decrypt_pipeline km er) = c_string (decrypted_bytes km er)"
  by (simp add: decrypt_pipeline_terminated c_string_terminated)

lemma length_c_string_le: "length (c_string d) \<le> length d"
  by (simp add: c_string_def length_takeWhile_le)

lemma length_c_string_eq: "length (c_string d) = length d \<longleftrightarrow> 0 \<notin> set d"
proof
  assume "length (c_string d) = length d"
  then have "c_string d = d"
    unfolding c_string_def by (metis takeWhile_eq_take take_all order_refl)
  then show "0 \<notin> set d"
    unfolding c_string_def by (metis set_takeWhileD)
next
  assume "0 \<notin> set d"
  then have "c_string d = d"
    unfolding c_string_def by (intro takeWhile_eq_all_conv [THEN iffD2]) auto
  then show "length (c_string d) = length d" by simp
qed

lemma get_edge_relays_miss:
  assumes "cached_result st = []"
  shows "get_edge_relays km er st =
     (c_string (decrypted_bytes km er),
      st\<lparr>cached_result := c_string (decrypted_bytes km er), pipeline_runs := pipeline_runs st + 1\<rparr>)"
  using assms by (simp add: get_edge_relays_def Let_def c_string_pipeline)

lemma get_edge_relays_hit:
  assumes "cached_result st \<noteq> []"
  shows "get_edge_relays km er st = (cached_result st, st)"
  using assms by (simp add: get_edge_relays_def)

text \<open>
  Claim C4.  On a call that finds the cache empty, the text that \<open>get_edge_relays\<close>
  returns and caches is the decrypted byte sequence up to, and without, its first zero
  byte; when the decrypted bytes contain a zero byte the text is strictly shorter than the
  ciphertext and the bytes from that zero on are dropped.
\<close>

theorem cached_text_stops_at_first_zero:
  assumes "well_formed KEY_MATERIAL ENCRYPTED_RELAYS" "cached_result st = []"
  shows "fst (get_edge_relays KEY_MATERIAL ENCRYPTED_RELAYS st) =
           takeWhile (\<lambda>b. b \<noteq> 0) (decrypted_bytes KEY_MATERIAL ENCRYPTED_RELAYS) \<and>
         cached_result (snd (get_edge_relays KEY_MATERIAL ENCRYPTED_RELAYS st)) =
           takeWhile (\<lambda>b. b \<noteq> 0) (decrypted_bytes KEY_MATERIAL ENCRYPTED_RELAYS) \<and>
         (0 \<in> set (decrypted_bytes KEY_MATERIAL ENCRYPTED_RELAYS) \<longrightarrow>
            length (fst (get_edge_relays KEY_MATERIAL ENCRYPTED_RELAYS st)) <
              length ENCRYPTED_RELAYS - 24 - 16)"
proof -
  let ?d = "decrypted_bytes KEY_MATERIAL ENCRYPTED_RELAYS"
  have "length (c_string ?d) < length ?d" if "0 \<in> set ?d"
    using that length_c_string_le [of ?d] length_c_string_eq [of ?d] by linarith
  then show ?thesis
    using assms(2) by (simp add: get_edge_relays_miss) (simp add: c_string_def)
qed

text \<open>
  Claim C3, as amended.  For every well-formed blob the ciphertext read has length
  \<open>len(blob) - 24 - 16\<close>, the routine writes exactly that many decrypted bytes, and
  the text cached by a call that finds the cache empty is at most that long; it has
  exactly that length if and only if no decrypted byte is zero.
\<close>

theorem cached_text_length:
  assumes "well_formed KEY_MATERIAL ENCRYPTED_RELAYS" "cached_result st = []"
  shows "length (ciphertext_bytes ENCRYPTED_RELAYS) = length ENCRYPTED_RELAYS - 24 - 16 \<and>
         decrypted_bytes KEY_MATERIAL ENCRYPTED_RELAYS =
           chacha20_decrypt (replicate (length ENCRYPTED_RELAYS - 24 - 16) 0)
             (ciphertext_bytes ENCRYPTED_RELAYS) (length ENCRYPTED_RELAYS - 24 - 16)
             (deobfuscate_key KEY_MATERIAL (replicate 32 0)) ENCRYPTED_RELAYS \<and>
         length (decrypted_bytes KEY_MATERIAL ENCRYPTED_RELAYS) = length ENCRYPTED_RELAYS - 24 - 16 \<and>
         length (cached_result (snd (get_edge_relays KEY_MATERIAL ENCRYPTED_RELAYS st)))
           \<le> length ENCRYPTED_RELAYS - 24 - 16 \<and>
         (length (cached_result (snd (get_edge_relays KEY_MATERIAL ENCRYPTED_RELAYS st)))
            = length ENCRYPTED_RELAYS - 24 - 16
          \<longleftrightarrow> 0 \<notin> set (decrypted_bytes KEY_MATERIAL ENCRYPTED_RELAYS))"
proof -
  let ?d = "decrypted_bytes KEY_MATERIAL ENCRYPTED_RELAYS"
  have "length (ciphertext_bytes ENCRYPTED_RELAYS) = length ENCRYPTED_RELAYS - 24 - 16"
    using assms(1) by (auto simp: ciphertext_bytes_def well_formed_def)
  moreover note decrypted_bytes_chacha20 [of KEY_MATERIAL ENCRYPTED_RELAYS]
  moreover have "length (c_string ?d) \<le> length ENCRYPTED_RELAYS - 24 - 16"
    using length_c_string_le [of ?d] by simp
  moreover have "length (c_string ?d) = length ENCRYPTED_RELAYS - 24 - 16 \<longleftrightarrow> 0 \<notin> set ?d"
    using length_c_string_eq [of ?d] by simp
  ultimately show ?thesis
    using assms(2) by (simp add: get_edge_relays_miss)
qed

lemma chacha20_decrypt_nonce_prefix:
  assumes "\<And>i. i < 8 \<Longrightarrow> nonce1 ! i = nonce2 ! i"
  shows "chacha20_decrypt out input len key nonce1 = chacha20_decrypt out input len key nonce2"
  using keyed_state_nonce_prefix [of nonce1 nonce2 key] assms
  by (simp add: chacha20_decrypt_def)

lemma blobs_decrypt_alike:
  assumes "length b1 = length b2"
    and "take 8 b1 = take 8 b2"
    and "take (length b1 - 24 - 16) (drop 24 b1) = take (length b2 - 24 - 16) (drop 24 b2)"
  shows "chacha20_decrypt out (drop 24 b1) (length b1 - 24 - 16) key b1 =
         chacha20_decrypt out (drop 24 b2) (length b2 - 24 - 16) key b2"
proof -
  have "take (length b1 - 24 - 16) (drop 24 b1) = take (length b1 - 24 - 16) (drop 24 b2)"
    using assms(1,3) by simp
  then have "chacha20_decrypt out (drop 24 b1) (length b1 - 24 - 16) key b1 =
             chacha20_decrypt out (drop 24 b2) (length b1 - 24 - 16) key b1"
    by (rule chacha20_decrypt_input_prefix)
  also have "\<dots> = chacha20_decrypt out (drop 24 b2) (length b1 - 24 - 16) key b2"
  proof (rule chacha20_decrypt_nonce_prefix)
    fix i :: nat assume "i < 8"
    then show "b1 ! i = b2 ! i"
      using assms(2) by (metis nth_take)
  qed
  finally show ?thesis using assms(1) by simp
qed

text \<open>
  Claim C8.  Two blobs of the same length that agree on their first eight bytes and on
  the ciphertext bytes, whatever bytes 8 to 23 and the sixteen tag bytes are, decrypt
  alike under every key: the routine writes the same bytes, the pipeline leaves the same
  buffer, and \<open>get_edge_relays\<close> returns the same text and state.
\<close>

theorem unused_nonce_and_tag_bytes:
  assumes "length b1 = length b2" "40 \<le> length b1"
    and "take 8 b1 = take 8 b2"
    and "take (length b1 - 24 - 16) (drop 24 b1) = take (length b2 - 24 - 16) (drop 24 b2)"
  shows "chacha20_decrypt out (drop 24 b1) (length b1 - 24 - 16) key b1 =
           chacha20_decrypt out (drop 24 b2) (length b2 - 24 - 16) key b2 \<and>
         decrypt_pipeline KEY_MATERIAL b1 = decrypt_pipeline KEY_MATERIAL b2 \<and>
         get_edge_relays KEY_MATERIAL b1 st = get_edge_relays KEY_MATERIAL b2 st"
proof -
  note eq = blobs_decrypt_alike [OF assms(1,3,4)]
  have "decrypt_pipeline KEY_MATERIAL b1 = decrypt_pipeline KEY_MATERIAL b2"
    unfolding decrypt_pipeline_def Let_def
    using blobs_decrypt_alike [OF assms(1,3,4), of "replicate (length b1 - 24 - 16 + 1) 0"
        "deobfuscate_key KEY_MATERIAL (replicate 32 0)"] assms(1)
    by simp
  then show ?thesis
    using eq by (simp add: get_edge_relays_def)
qed

lemma calls_hit:
  "cached_result st \<noteq> [] \<Longrightarrow> calls km er n st = (replicate n (cached_result st), st)"
  by (induction n) (simp_all add: get_edge_relays_hit)

lemma calls_empty_text:
  assumes "c_string (decrypted_bytes km er) = []"
  shows "cached_result st = [] \<Longrightarrow>
    fst (calls km er n st) = replicate n [] \<and>
    cached_result (snd (calls km er n st)) = [] \<and>
    pipeline_runs (snd (calls km er n st)) = pipeline_runs st + n"
proof (induction n arbitrary: st)
  case 0
  then show ?case by simp
next
  case (Suc n)
  let ?st1 = "st\<lparr>cached_result := [], pipeline_runs := pipeline_runs st + 1\<rparr>"
  have step: "get_edge_relays km er st = ([], ?st1)"
    using Suc.prems assms by (simp add: get_edge_relays_miss)
  have "cached_result ?st1 = []" by simp
  from Suc.IH [OF this] show ?case
    by (simp add: step case_prod_beta)
qed

lemma calls_first_fills:
  assumes "cached_result st = []" "c_string (decrypted_bytes km er) \<noteq> []"
  shows "calls km er (Suc n) st =
    (replicate (Suc n) (c_string (decrypted_bytes km er)),
     st\<lparr>cached_result := c_string (decrypted_bytes km er), pipeline_runs := pipeline_runs st + 1\<rparr>)"
  using assms by (simp add: get_edge_relays_miss calls_hit)

text \<open>
  Claim C1, as amended.  Any \<open>n > 0\<close> calls after the module is loaded return the same
  text.  When that text is not empty, the first call runs the pipeline and stores the
  text, and after all \<open>n\<close> calls the pipeline has run exactly once.
\<close>

theorem pipeline_runs_once:
  assumes "well_formed KEY_MATERIAL ENCRYPTED_RELAYS" "0 < n"
  shows "fst (calls KEY_MATERIAL ENCRYPTED_RELAYS n loaded) =
           replicate n (c_string (decrypt_pipeline KEY_MATERIAL ENCRYPTED_RELAYS)) \<and>
         (c_string (decrypt_pipeline KEY_MATERIAL ENCRYPTED_RELAYS) \<noteq> [] \<longrightarrow>
            snd (get_edge_relays KEY_MATERIAL ENCRYPTED_RELAYS loaded) =
              \<lparr>cached_result = c_string (decrypt_pipeline KEY_MATERIAL ENCRYPTED_RELAYS),
               pipeline_runs = 1\<rparr> \<and>
            snd (calls KEY_MATERIAL ENCRYPTED_RELAYS n loaded) =
              \<lparr>cached_result = c_string (decrypt_pipeline KEY_MATERIAL ENCRYPTED_RELAYS),
               pipeline_runs = 1\<rparr>)"
proof (cases "c_string (decrypted_bytes KEY_MATERIAL ENCRYPTED_RELAYS) = []")
  case True
  then show ?thesis
    using calls_empty_text [of KEY_MATERIAL ENCRYPTED_RELAYS loaded n]
    by (simp add: c_string_pipeline loaded_def)
next
  case False
  obtain m where n: "n = Suc m" using assms(2) by (cases n) auto
  have "cached_result loaded = []" by (simp add: loaded_def)
  from calls_first_fills [OF this False, of m] False show ?thesis
    by (simp add: n c_string_pipeline get_edge_relays_miss loaded_def)
qed

section \<open>A run under the all-zero key\<close>

lemma initial_state_zeros:
  "initial_state = [0x61707865, 0x3320646e, 0x79622d32, 0x6b206574] @ replicate 12 0"
  by (simp add: initial_state_def eval_nat_numeral)

lemma initial_state_nth_zero: "4 \<le> m \<Longrightarrow> m < 16 \<Longrightarrow> initial_state ! m = 0"
  by (simp add: initial_state_zeros nth_append)

lemma load_le32_zero:
  assumes "\<And>i. i < 4 * Suc k \<Longrightarrow> src ! i = 0"
  shows "load_le32 src k = 0"
  by (simp add: load_le32_def assms)

lemma keyed_state_zero:
  assumes "\<And>i. i < 32 \<Longrightarrow> key ! i = 0" "\<And>i. i < 8 \<Longrightarrow> nonce ! i = 0"
  shows "keyed_state key nonce = initial_state"
proof (intro nth_equalityI)
  fix m assume "m < length (keyed_state key nonce)"
  then have m: "m < 16" by simp
  have "load_le32 key (m - 4) = 0" if "4 \<le> m" "m < 12"
    using that assms(1) by (intro load_le32_zero) simp
  moreover have "load_le32 nonce (m - 14) = 0" if "14 \<le> m"
    using that m assms(2) by (intro load_le32_zero) simp
  ultimately show "keyed_state key nonce ! m = initial_state ! m"
    using m by (simp add: keyed_state_def memcpy_words_nth initial_state_nth_zero)
qed simp

lemma zero_key_first_block:
  assumes "length cs \<le> 64" "k < length cs"
  shows "decrypted_bytes (replicate 64 0) (replicate 24 0 @ cs @ replicate 16 0) ! k =
     cs ! k XOR
     keystream_byte [0xbee7079f, 0x7a385155, 0x7c97ba98, 0x0d082d73, 0xa0290fcb, 0x6965e348,
       0x3e53c612, 0xed7aee32, 0x7621b729, 0x434ee69c, 0xb03371d5, 0xd539d874, 0x281fed31,
       0x45fb0a51, 0x1f0ae1ac, 0x6f4d794b] k"
proof -
  let ?er = "replicate 24 0 @ cs @ replicate 16 (0 :: u8)"
  let ?key = "deobfuscate_key (replicate 64 0) (replicate 32 0)"
  have "keyed_state ?key ?er = initial_state"
    by (rule keyed_state_zero) (simp_all add: deobfuscate_key_nth nth_append)
  moreover have "k div 64 = 0" "k mod 64 = k" using assms by simp_all
  moreover have "initial_state[12 := 1] =
      [0x61707865, 0x3320646e, 0x79622d32, 0x6b206574, 0, 0, 0, 0, 0, 0, 0, 0, 1, 0, 0, 0]"
    by (simp add: initial_state_def)
  moreover have "?er ! (24 + k) = cs ! k"
    using assms by (simp add: nth_append)
  ultimately show ?thesis
    using assms decrypted_bytes_nth [of ?er k "replicate 64 0"]
    by (simp add: chacha20_block_zero_key)
qed

lemma zero_key_keystream_bytes:
  "keystream_byte [0xbee7079f, 0x7a385155, 0x7c97ba98, 0x0d082d73, 0xa0290fcb, 0x6965e348,
       0x3e53c612, 0xed7aee32, 0x7621b729, 0x434ee69c, 0xb03371d5, 0xd539d874, 0x281fed31,
       0x45fb0a51, 0x1f0ae1ac, 0x6f4d794b] 0 = 0x9F"
  "keystream_byte [0xbee7079f, 0x7a385155, 0x7c97ba98, 0x0d082d73, 0xa0290fcb, 0x6965e348,
       0x3e53c612, 0xed7aee32, 0x7621b729, 0x434ee69c, 0xb03371d5, 0xd539d874, 0x281fed31,
       0x45fb0a51, 0x1f0ae1ac, 0x6f4d794b] (Suc 0) = 0x07"
  by (simp_all add: keystream_byte_def)

lemma zero_key_two_bytes:
  "decrypted_bytes (replicate 64 0) (replicate 24 0 @ c0 # c1 # replicate 16 0) =
     [c0 XOR 0x9F, c1 XOR 0x07]"
proof (intro nth_equalityI)
  fix k assume "k < length (decrypted_bytes (replicate 64 0) (replicate 24 0 @ c0 # c1 # replicate 16 0))"
  then have "k = 0 \<or> k = 1" by auto
  then show "decrypted_bytes (replicate 64 0) (replicate 24 0 @ c0 # c1 # replicate 16 0) ! k =
     [c0 XOR 0x9F, c1 XOR 0x07] ! k"
    using zero_key_first_block [of "[c0, c1]" 0] zero_key_first_block [of "[c0, c1]" 1]
    by (auto simp: zero_key_keystream_bytes)
qed simp

text \<open>
  Claim C1 as stated fails when the decrypted text is empty.  With a blob that holds no
  ciphertext, and with a blob whose first decrypted byte is zero (under the all-zero key
  and nonce the ciphertext \<open>9F 07\<close> decrypts to \<open>00 00\<close>), two calls after load both
  return the empty text and run the pipeline twice, not once.
\<close>

theorem empty_payload_decrypted_twice:
  "well_formed (replicate 64 0) (replicate 40 0) \<and>
   fst (calls (replicate 64 0) (replicate 40 0) 2 loaded) = [[], []] \<and>
   pipeline_runs (snd (calls (replicate 64 0) (replicate 40 0) 2 loaded)) = 2 \<and>
   well_formed (replicate 64 0) (replicate 24 0 @ 0x9F # 0x07 # replicate 16 0) \<and>
   fst (calls (replicate 64 0) (replicate 24 0 @ 0x9F # 0x07 # replicate 16 0) 2 loaded) = [[], []] \<and>
   pipeline_runs (snd (calls (replicate 64 0) (replicate 24 0 @ 0x9F # 0x07 # replicate 16 0) 2 loaded)) = 2"
proof -
  have "decrypted_bytes (replicate 64 0) (replicate 40 0) = []"
    by (rule length_0_conv [THEN iffD1]) simp
  then have "c_string (decrypted_bytes (replicate 64 0) (replicate 40 0)) = []"
    by (simp add: c_string_def)
  from calls_empty_text [OF this, of loaded 2]
  have first: "fst (calls (replicate 64 0) (replicate 40 0) 2 loaded) = [[], []] \<and>
      pipeline_runs (snd (calls (replicate 64 0) (replicate 40 0) 2 loaded)) = 2"
    by (simp add: loaded_def eval_nat_numeral)
  have "c_string (decrypted_bytes (replicate 64 0) (replicate 24 0 @ 0x9F # 0x07 # replicate 16 0)) = []"
    unfolding zero_key_two_bytes by (simp add: c_string_def)
  from calls_empty_text [OF this, of loaded 2]
  have second: "fst (calls (replicate 64 0) (replicate 24 0 @ 0x9F # 0x07 # replicate 16 0) 2 loaded) = [[], []] \<and>
      pipeline_runs (snd (calls (replicate 64 0) (replicate 24 0 @ 0x9F # 0x07 # replicate 16 0) 2 loaded)) = 2"
    by (simp add: loaded_def eval_nat_numeral)
  from first second show ?thesis
    by (simp add: well_formed_def)
qed

text \<open>
  Claim C3 as stated fails when a decrypted byte is zero: under the all-zero key and nonce
  the two ciphertext bytes \<open>FE 07\<close> decrypt to \<open>61 00\<close>, and the cached text has
  length 1, not 2.
\<close>

theorem zero_byte_shortens_cached_text:
  "well_formed (replicate 64 0) (replicate 24 0 @ 0xFE # 0x07 # replicate 16 0) \<and>
   length (replicate 24 0 @ 0xFE # 0x07 # replicate 16 (0 :: u8)) - 24 - 16 = 2 \<and>
   cached_result (snd (get_edge_relays (replicate 64 0)
     (replicate 24 0 @ 0xFE # 0x07 # replicate 16 0) loaded)) = [0x61] \<and>
   length (cached_result (snd (get_edge_relays (replicate 64 0)
     (replicate 24 0 @ 0xFE # 0x07 # replicate 16 0) loaded))) \<noteq>
   length (replicate 24 0 @ 0xFE # 0x07 # replicate 16 (0 :: u8)) - 24 - 16"
  by (simp add: well_formed_def get_edge_relays_miss loaded_def zero_key_two_bytes c_string_def)

section \<open>The theorems at concrete data\<close>

theorem cached_text_stops_at_first_zero_witness:
  "well_formed (replicate 64 0) (replicate 24 0 @ 0xE8 # 0x07 # replicate 16 0) \<and>
   cached_result loaded = [] \<and>
   0 \<in> set (decrypted_bytes (replicate 64 0) (replicate 24 0 @ 0xE8 # 0x07 # replicate 16 0)) \<and>
   fst (get_edge_relays (replicate 64 0) (replicate 24 0 @ 0xE8 # 0x07 # replicate 16 0) loaded) = takeWhile (\<lambda>b. b \<noteq> 0) (decrypted_bytes (replicate 64 0) (replicate 24 0 @ 0xE8 # 0x07 # replicate 16 0)) \<and>
   cached_result (snd (get_edge_relays (replicate 64 0) (replicate 24 0 @ 0xE8 # 0x07 # replicate 16 0) loaded)) =
     takeWhile (\<lambda>b. b \<noteq> 0) (decrypted_bytes (replicate 64 0) (replicate 24 0 @ 0xE8 # 0x07 # replicate 16 0)) \<and>
   length (fst (get_edge_relays (replicate 64 0) (replicate 24 0 @ 0xE8 # 0x07 # replicate 16 0) loaded)) < length (replicate 24 0 @ 0xE8 # 0x07 # replicate 16 (0 :: u8)) - 24 - 16"
proof -
  have h: "well_formed (replicate 64 0) (replicate 24 0 @ 0xE8 # 0x07 # replicate 16 0)" "cached_result loaded = []"
    by (simp_all add: well_formed_def loaded_def)
  have z: "0 \<in> set (decrypted_bytes (replicate 64 0) (replicate 24 0 @ 0xE8 # 0x07 # replicate 16 0))"
    by (simp add: zero_key_two_bytes)
  from cached_text_stops_at_first_zero [OF h] h z show ?thesis by blast
qed

theorem cached_text_length_witness:
  "well_formed (replicate 64 0) (replicate 24 0 @ 0xF7 # 0x6E # replicate 16 0) \<and>
   cached_result loaded = [] \<and>
   length (ciphertext_bytes (replicate 24 0 @ 0xF7 # 0x6E # replicate 16 0)) = length (replicate 24 0 @ 0xF7 # 0x6E # replicate 16 (0 :: u8)) - 24 - 16 \<and>
   decrypted_bytes (replicate 64 0) (replicate 24 0 @ 0xF7 # 0x6E # replicate 16 0) =
     chacha20_decrypt (replicate (length (replicate 24 0 @ 0xF7 # 0x6E # replicate 16 (0 :: u8)) - 24 - 16) 0) (ciphertext_bytes (replicate 24 0 @ 0xF7 # 0x6E # replicate 16 0))
       (length (replicate 24 0 @ 0xF7 # 0x6E # replicate 16 (0 :: u8)) - 24 - 16) (deobfuscate_key (replicate 64 0) (replicate 32 0)) (replicate 24 0 @ 0xF7 # 0x6E # replicate 16 0) \<and>
   length (decrypted_bytes (replicate 64 0) (replicate 24 0 @ 0xF7 # 0x6E # replicate 16 0)) = length (replicate 24 0 @ 0xF7 # 0x6E # replicate 16 (0 :: u8)) - 24 - 16 \<and>
   length (cached_result (snd (get_edge_relays (replicate 64 0) (replicate 24 0 @ 0xF7 # 0x6E # replicate 16 0) loaded))) \<le> length (replicate 24 0 @ 0xF7 # 0x6E # replicate 16 (0 :: u8)) - 24 - 16 \<and>
   (length (cached_result (snd (get_edge_relays (replicate 64 0) (replicate 24 0 @ 0xF7 # 0x6E # replicate 16 0) loaded))) = length (replicate 24 0 @ 0xF7 # 0x6E # replicate 16 (0 :: u8)) - 24 - 16
    \<longleftrightarrow> 0 \<notin> set (decrypted_bytes (replicate 64 0) (replicate 24 0 @ 0xF7 # 0x6E # replicate 16 0)))"
proof -
  have h: "well_formed (replicate 64 0) (replicate 24 0 @ 0xF7 # 0x6E # replicate 16 0)" "cached_result loaded = []"
    by (simp_all add: well_formed_def loaded_def)
  from cached_text_length [OF h] h show ?thesis by blast
qed

theorem pipeline_runs_once_witness:
  "well_formed (replicate 64 0) (replicate 24 0 @ 0xEC # 0x63 # replicate 16 0) \<and> (0 :: nat) < 3 \<and>
   c_string (decrypt_pipeline (replicate 64 0) (replicate 24 0 @ 0xEC # 0x63 # replicate 16 0)) \<noteq> [] \<and>
   fst (calls (replicate 64 0) (replicate 24 0 @ 0xEC # 0x63 # replicate 16 0) 3 loaded) = replicate 3 (c_string (decrypt_pipeline (replicate 64 0) (replicate 24 0 @ 0xEC # 0x63 # replicate 16 0))) \<and>
   snd (get_edge_relays (replicate 64 0) (replicate 24 0 @ 0xEC # 0x63 # replicate 16 0) loaded) =
     \<lparr>cached_result = c_string (decrypt_pipeline (replicate 64 0) (replicate 24 0 @ 0xEC # 0x63 # replicate 16 0)), pipeline_runs = 1\<rparr> \<and>
   snd (calls (replicate 64 0) (replicate 24 0 @ 0xEC # 0x63 # replicate 16 0) 3 loaded) =
     \<lparr>cached_result = c_string (decrypt_pipeline (replicate 64 0) (replicate 24 0 @ 0xEC # 0x63 # replicate 16 0)), pipeline_runs = 1\<rparr>"
proof -
  have h: "well_formed (replicate 64 0) (replicate 24 0 @ 0xEC # 0x63 # replicate 16 0)" "(0 :: nat) < 3"
    by (simp_all add: well_formed_def)
  have t: "c_string (decrypt_pipeline (replicate 64 0) (replicate 24 0 @ 0xEC # 0x63 # replicate 16 0)) \<noteq> []"
    unfolding c_string_pipeline zero_key_two_bytes by (simp add: c_string_def)
  from pipeline_runs_once [OF h] h t show ?thesis by blast
qed

theorem unused_nonce_and_tag_bytes_witness:
  "length (replicate 24 0 @ 1 # 2 # replicate 16 (0 :: u8)) = length (replicate 8 0 @ replicate 16 0xFF @ 1 # 2 # replicate 16 (0xEE :: u8)) \<and>
   40 \<le> length (replicate 24 0 @ 1 # 2 # replicate 16 (0 :: u8)) \<and>
   take 8 (replicate 24 0 @ 1 # 2 # replicate 16 (0 :: u8)) = take 8 (replicate 8 0 @ replicate 16 0xFF @ 1 # 2 # replicate 16 (0xEE :: u8)) \<and>
   take (length (replicate 24 0 @ 1 # 2 # replicate 16 (0 :: u8)) - 24 - 16) (drop 24 (replicate 24 0 @ 1 # 2 # replicate 16 (0 :: u8))) = take (length (replicate 8 0 @ replicate 16 0xFF @ 1 # 2 # replicate 16 (0xEE :: u8)) - 24 - 16) (drop 24 (replicate 8 0 @ replicate 16 0xFF @ 1 # 2 # replicate 16 (0xEE :: u8))) \<and>
   chacha20_decrypt [0, 0, 0] (drop 24 (replicate 24 0 @ 1 # 2 # replicate 16 0)) (length (replicate 24 0 @ 1 # 2 # replicate 16 (0 :: u8)) - 24 - 16) (replicate 32 7) (replicate 24 0 @ 1 # 2 # replicate 16 0) =
     chacha20_decrypt [0, 0, 0] (drop 24 (replicate 8 0 @ replicate 16 0xFF @ 1 # 2 # replicate 16 0xEE)) (length (replicate 8 0 @ replicate 16 0xFF @ 1 # 2 # replicate 16 (0xEE :: u8)) - 24 - 16) (replicate 32 7) (replicate 8 0 @ replicate 16 0xFF @ 1 # 2 # replicate 16 0xEE) \<and>
   decrypt_pipeline (replicate 64 0) (replicate 24 0 @ 1 # 2 # replicate 16 0) = decrypt_pipeline (replicate 64 0) (replicate 8 0 @ replicate 16 0xFF @ 1 # 2 # replicate 16 0xEE) \<and>
   get_edge_relays (replicate 64 0) (replicate 24 0 @ 1 # 2 # replicate 16 0) loaded = get_edge_relays (replicate 64 0) (replicate 8 0 @ replicate 16 0xFF @ 1 # 2 # replicate 16 0xEE) loaded"
proof -
  have h: "length (replicate 24 0 @ 1 # 2 # replicate 16 (0 :: u8)) = length (replicate 8 0 @ replicate 16 0xFF @ 1 # 2 # replicate 16 (0xEE :: u8))" "40 \<le> length (replicate 24 0 @ 1 # 2 # replicate 16 (0 :: u8))" "take 8 (replicate 24 0 @ 1 # 2 # replicate 16 (0 :: u8)) = take 8 (replicate 8 0 @ replicate 16 0xFF @ 1 # 2 # replicate 16 (0xEE :: u8))"
    "take (length (replicate 24 0 @ 1 # 2 # replicate 16 (0 :: u8)) - 24 - 16) (drop 24 (replicate 24 0 @ 1 # 2 # replicate 16 (0 :: u8))) = take (length (replicate 8 0 @ replicate 16 0xFF @ 1 # 2 # replicate 16 (0xEE :: u8)) - 24 - 16) (drop 24 (replicate 8 0 @ replicate 16 0xFF @ 1 # 2 # replicate 16 (0xEE :: u8)))"
    by simp_all
  from unused_nonce_and_tag_bytes [OF h, of "[0, 0, 0]" "replicate 32 7" "replicate 64 0" loaded] h
  show ?thesis by blast
qed

section \<open>The record counter against the specification\<close>

lemma sint_small:
  fixes x :: "32 word"
  assumes "unat x < 2 ^ 31"
  shows "sint x = int (unat x)"
proof -
  have "int (unat x) < int (2 ^ 31)"
    using assms by (simp only: of_nat_less_iff)
  then have upper: "uint x < 2 ^ 31" by simp
  have "(0 :: int) \<le> uint x" by simp
  then have lower: "- (2 ^ 31) \<le> uint x" by (rule order_trans [rotated]) simp
  have "signed_take_bit 31 (uint x) = uint x"
    using lower upper by (rule signed_take_bit_int_eq_self)
  then show ?thesis by (simp add: sint_uint)
qed

lemma sless_small:
  fixes x :: "32 word"
  assumes "unat x < 2 ^ 31"
  shows "0 <s x \<longleftrightarrow> 0 < unat x"
proof -
  have "0 <s x \<longleftrightarrow> 0 < int (unat x)"
    using sint_small [OF assms] by (simp add: word_sless_alt)
  then show ?thesis by (simp only: of_nat_0_less_iff)
qed

lemma unat_succ:
  fixes x :: "32 word"
  assumes "unat x < 2 ^ 31"
  shows "unat (x + 1) = unat x + 1"
  using assms unat_add_lem [of x 1] by simp

lemma count_loop_scan:
  assumes "0 \<notin> set json"
    and "unat slashes + length json < 2 ^ 31"
    and "unat count + length json < 2 ^ 31"
  shows "unat (count_loop (json @ [0]) count slashes) = estimate_scan json (unat slashes) (unat count) \<and>
         estimate_scan json (unat slashes) (unat count) \<le> unat count + length json"
  using assms
proof (induction json arbitrary: count slashes)
  case Nil
  then show ?case by simp
next
  case (Cons c cs)
  have c: "c \<noteq> 0" and zeros: "0 \<notin> set cs"
    using Cons.prems(1) by auto
  have len: "unat slashes + length cs + 1 < 2 ^ 31" "unat count + length cs + 1 < 2 ^ 31"
    using Cons.prems(2,3) by simp_all
  have small: "unat slashes < 2 ^ 31" "unat count < 2 ^ 31"
    using len by linarith+
  consider (slash) "c = 0x2F" | (quote) "c = 0x22" | (other) "c \<noteq> 0x2F" "c \<noteq> 0x22"
    by blast
  then show ?case
  proof cases
    case slash
    have u: "unat (slashes + 1) = unat slashes + 1"
      using small(1) by (rule unat_succ)
    have l: "count_loop ((c # cs) @ [0]) count slashes = count_loop (cs @ [0]) count (slashes + 1)"
      using slash by simp
    have r: "estimate_scan (c # cs) (unat slashes) (unat count) =
        estimate_scan cs (unat slashes + 1) (unat count)"
      using slash by simp
    have "unat (slashes + 1) + length cs < 2 ^ 31" "unat count + length cs < 2 ^ 31"
      using len u by linarith+
    from Cons.IH [OF zeros this] show ?thesis
      unfolding l r u by simp
  next
    case quote
    show ?thesis
    proof (cases "0 < unat slashes")
      case True
      then have pos: "0 <s slashes" using sless_small [OF small(1)] by simp
      have u: "unat (count + 1) = unat count + 1"
        using small(2) by (rule unat_succ)
      have l: "count_loop ((c # cs) @ [0]) count slashes = count_loop (cs @ [0]) (count + 1) 0"
        using quote pos by simp
      have r: "estimate_scan (c # cs) (unat slashes) (unat count) =
          estimate_scan cs 0 (unat count + 1)"
        using quote True by simp
      have "unat (0 :: 32 word) + length cs < 2 ^ 31" "unat (count + 1) + length cs < 2 ^ 31"
        using len u by simp_all
      from Cons.IH [OF zeros this] show ?thesis
        unfolding l r u by simp
    next
      case False
      then have pos: "\<not> 0 <s slashes" using sless_small [OF small(1)] by simp
      have l: "count_loop ((c # cs) @ [0]) count slashes = count_loop (cs @ [0]) count slashes"
        using quote pos by simp
      have r: "estimate_scan (c # cs) (unat slashes) (unat count) =
          estimate_scan cs (unat slashes) (unat count)"
        using quote False by simp
      have "unat slashes + length cs < 2 ^ 31" "unat count + length cs < 2 ^ 31"
        using len by linarith+
      from Cons.IH [OF zeros this] show ?thesis
        unfolding l r by simp
    qed
  next
    case other
    have l: "count_loop ((c # cs) @ [0]) count slashes = count_loop (cs @ [0]) count slashes"
      using other c by simp
    have r: "estimate_scan (c # cs) (unat slashes) (unat count) =
        estimate_scan cs (unat slashes) (unat count)"
      using other by simp
    have "unat slashes + length cs < 2 ^ 31" "unat count + length cs < 2 ^ 31"
      using len by linarith+
    from Cons.IH [OF zeros this] show ?thesis
      unfolding l r by simp
  qed
qed

lemma relay_count_sint:
  assumes "0 \<notin> set json" and "length json < 2 ^ 31"
  shows "sint (count_loop (json @ [0]) 0 0) = int (estimate_count json)"
proof -
  have "unat (0 :: 32 word) + length json < 2 ^ 31"
    using assms(2) by simp
  from count_loop_scan [OF assms(1) this this]
  have *: "unat (count_loop (json @ [0]) 0 0) = estimate_count json"
    "estimate_count json \<le> length json"
    by (simp_all add: estimate_count_def)
  then have "unat (count_loop (json @ [0]) 0 0) < 2 ^ 31"
    using assms(2) by linarith
  then have "sint (count_loop (json @ [0]) 0 0) = int (unat (count_loop (json @ [0]) 0 0))"
    by (rule sint_small)
  then show ?thesis
    by (simp only: *)
qed

text \<open>
  The exported \<open>get_relay_count\<close>, called on the freshly loaded module with a blob
  that fits the address space, returns the scan of the text that \<open>get_edge_relays\<close>
  caches.
\<close>

lemma get_relay_count_after_load:
  assumes "length ENCRYPTED_RELAYS < 2 ^ 31"
  shows "sint (fst (get_relay_count KEY_MATERIAL ENCRYPTED_RELAYS loaded)) =
         int (estimate_count (c_string (decrypt_pipeline KEY_MATERIAL ENCRYPTED_RELAYS)))"
proof -
  let ?d = "decrypted_bytes KEY_MATERIAL ENCRYPTED_RELAYS"
  have "0 \<notin> set (c_string ?d)"
    unfolding c_string_def by (metis set_takeWhileD)
  moreover have "length (c_string ?d) < 2 ^ 31"
    using length_c_string_le [of ?d] assms by simp
  ultimately have "sint (count_loop (c_string ?d @ [0]) 0 0) = int (estimate_count (c_string ?d))"
    by (rule relay_count_sint)
  then show ?thesis
    by (simp add: get_relay_count_def get_edge_relays_miss loaded_def c_string_pipeline)
qed

text \<open>
  Claim C9.  For every text, the loop of \<open>get_relay_count\<close> returns the value of the
  left-to-right scan of the specification, which is not negative; the scan of
  \<open>"a/b" "c" "d/e/f"\<close> is 2 and the scan of \<open>""\<close> is 0.  A text is a C string: it
  has no zero byte, and it is shorter than \<open>2^31\<close>, since the blob it was decrypted
  from and the buffer it was copied from lie with it in one 32-bit address space.
\<close>

theorem relay_count_is_the_scan:
  assumes \<open>0 \<notin> set json\<close> and \<open>length json < 2 ^ 31\<close>
  shows \<open>sint (count_loop (json @ [0]) 0 0) = int (estimate_count json) \<and>
         0 \<le> sint (count_loop (json @ [0]) 0 0) \<and>
         sint (count_loop (bytes_of ''"a/b" "c" "d/e/f"'' @ [0]) 0 0) = 2 \<and>
         sint (count_loop (bytes_of ''""'' @ [0]) 0 0) = 0\<close>
proof -
  have main: "sint (count_loop (json @ [0]) 0 0) = int (estimate_count json)"
    using assms by (rule relay_count_sint)
  have e1: \<open>sint (count_loop (bytes_of ''"a/b" "c" "d/e/f"'' @ [0]) 0 0) = 2\<close>
    by (simp add: bytes_of_def word_sless_alt)
  have e2: \<open>sint (count_loop (bytes_of ''""'' @ [0]) 0 0) = 0\<close>
    by (simp add: bytes_of_def word_sless_alt)
  from main e1 e2 show ?thesis by simp
qed

theorem relay_count_is_the_scan_witness:
  \<open>0 \<notin> set [0x22, 0x61, 0x2F, 0x31, 0x22, 0x2C, 0x22, 0x62, 0x2F, 0x32, 0x22 :: u8] \<and>
   length [0x22, 0x61, 0x2F, 0x31, 0x22, 0x2C, 0x22, 0x62, 0x2F, 0x32, 0x22 :: u8] < 2 ^ 31 \<and>
   sint (count_loop ([0x22, 0x61, 0x2F, 0x31, 0x22, 0x2C, 0x22, 0x62, 0x2F, 0x32, 0x22] @ [0]) 0 0) =
     int (estimate_count [0x22, 0x61, 0x2F, 0x31, 0x22, 0x2C, 0x22, 0x62, 0x2F, 0x32, 0x22]) \<and>
   0 \<le> sint (count_loop ([0x22, 0x61, 0x2F, 0x31, 0x22, 0x2C, 0x22, 0x62, 0x2F, 0x32, 0x22] @ [0]) 0 0) \<and>
   sint (count_loop (bytes_of ''"a/b" "c" "d/e/f"'' @ [0]) 0 0) = 2 \<and>
   sint (count_loop (bytes_of ''""'' @ [0]) 0 0) = 0\<close>
proof -
  have h: "0 \<notin> set [0x22, 0x61, 0x2F, 0x31, 0x22, 0x2C, 0x22, 0x62, 0x2F, 0x32, 0x22 :: u8]"
    "length [0x22, 0x61, 0x2F, 0x31, 0x22, 0x2C, 0x22, 0x62, 0x2F, 0x32, 0x22 :: u8] < 2 ^ 31"
    by simp_all
  from relay_count_is_the_scan [OF h] h show ?thesis by blast
qed

section \<open>The factorial\<close>

lemma scast_small:
  fixes i :: "32 word"
  assumes "unat i < 2 ^ 31"
  shows "(scast i :: 64 word) = word_of_nat (unat i)"
proof -
  have "(scast i :: 64 word) = word_of_int (int (unat i))"
    using sint_small [OF assms] by (simp only: scast_eq)
  then show ?thesis by simp
qed

lemma sle_small:
  fixes i n :: "32 word"
  assumes "unat i < 2 ^ 31" "unat n < 2 ^ 31"
  shows "i \<le>s n \<longleftrightarrow> unat i \<le> unat n"
proof -
  have "i \<le>s n \<longleftrightarrow> int (unat i) \<le> int (unat n)"
    using sint_small [OF assms(1)] sint_small [OF assms(2)] by (simp only: word_sle_eq)
  then show ?thesis by (simp only: of_nat_le_iff)
qed

lemma factorial_loop_returns:
  fixes i n :: "32 word"
  assumes "unat n < 2 ^ 31 - 1" "unat i \<le> unat n + 1"
  shows "factorial_loop i n r = Some (r * word_of_nat (\<Prod>{unat i..unat n}))"
  using assms(2)
proof (induction "unat n + 1 - unat i" arbitrary: i r)
  case 0
  then have eq: "unat i = unat n + 1" by simp
  have "unat i < 2 ^ 31" "unat n < 2 ^ 31" using assms(1) eq by simp_all
  then have "\<not> i \<le>s n" using eq by (simp add: sle_small)
  moreover have "{unat i..unat n} = {}" using eq by simp
  ultimately show ?case
    by (subst factorial_loop.simps) simp
next
  case (Suc d)
  then have le: "unat i \<le> unat n" by simp
  have small: "unat i < 2 ^ 31" "unat n < 2 ^ 31" using assms(1) le by simp_all
  then have cond: "i \<le>s n" using le by (simp add: sle_small)
  have u: "unat (i + 1) = unat i + 1" using small(1) by (rule unat_succ)
  have "d = unat n + 1 - unat (i + 1)" "unat (i + 1) \<le> unat n + 1"
    using Suc.hyps(2) le u by simp_all
  from Suc.hyps(1) [OF this]
  have "factorial_loop (i + 1) n (r * scast i) =
      Some (r * scast i * word_of_nat (\<Prod>{unat i + 1..unat n}))"
    by (simp only: u)
  moreover have "\<Prod>{unat i..unat n} = unat i * \<Prod>{unat i + 1..unat n}"
    using le by (simp add: prod.atLeast_Suc_atMost)
  ultimately show ?case
    using cond by (subst factorial_loop.simps) (simp add: scast_small [OF small(1)] mult.assoc)
qed

lemma factorial_loop_never_exits:
  "factorial_loop i 0x7FFFFFFF r = None"
proof -
  have "n \<noteq> 0x7FFFFFFF" if returns: "factorial_loop i n r = Some y" for i n r y
  proof (rule factorial_loop.raw_induct [where P = "\<lambda>i n r y. n \<noteq> 0x7FFFFFFF", OF _ returns])
    fix f :: "32 word \<Rightarrow> 32 word \<Rightarrow> 64 word \<Rightarrow> 64 word option"
    fix i' n' :: "32 word" and r' y' :: "64 word"
    assume ih: "\<And>a b c y. f a b c = Some y \<Longrightarrow> b \<noteq> 0x7FFFFFFF"
      and eq: "(if i' \<le>s n' then f (i' + 1) n' (r' * scast i') else Some r') = Some y'"
    show "n' \<noteq> 0x7FFFFFFF"
    proof
      assume n: "n' = 0x7FFFFFFF"
      have "sint i' \<le> sint (0x7FFFFFFF :: 32 word)"
        using sint_lt [of i'] by simp
      then have "i' \<le>s n'" using n by (simp only: word_sle_eq)
      with eq have "f (i' + 1) n' (r' * scast i') = Some y'" by simp
      from ih [OF this] n show False by simp
    qed
  qed
  then show ?thesis by (cases "factorial_loop i 0x7FFFFFFF r") auto
qed

lemma nonneg_small:
  fixes n :: "32 word"
  assumes "0 \<le>s n"
  shows "unat n < 2 ^ 31"
proof -
  have "\<not> sint n < 0" using assms by (simp add: word_sle_eq)
  then have nb: "\<not> bit n 31" using bit_last_iff [of n] by simp
  have "take_bit 31 n = n"
  proof (rule bit_word_eqI)
    fix k assume "k < LENGTH(32)"
    then have "k < 31 \<or> k = 31" by auto
    then show "bit (take_bit 31 n) k = bit n k"
      using nb by (auto simp: bit_take_bit_iff)
  qed
  then have "unat n = take_bit 31 (unat n)"
    by (metis unsigned_take_bit_eq)
  also have "\<dots> < 2 ^ 31" by (rule take_bit_nat_less_exp)
  finally show ?thesis .
qed

lemma demo_factorial_returns:
  assumes "0 \<le>s n" "n \<noteq> 0x7FFFFFFF"
  shows "demo_factorial n = Some (word_of_nat (fact (unat n)))"
proof -
  have small: "unat n < 2 ^ 31" using assms(1) by (rule nonneg_small)
  have "unat n \<noteq> unat (0x7FFFFFFF :: 32 word)"
    using assms(2) by (simp only: word_unat_eq_iff [symmetric]) simp
  then have bound: "unat n < 2 ^ 31 - 1" using small by simp
  have nonneg: "\<not> n <s 0"
    using assms(1) by (simp add: word_sle_eq word_sless_alt)
  show ?thesis
  proof (cases "unat n = 0")
    case True
    then have "n = 0" by (simp add: unat_eq_0)
    then show ?thesis
      by (simp add: demo_factorial_def factorial_loop.simps [of 2] word_sle_eq word_sless_alt)
  next
    case False
    then have "unat (2 :: 32 word) \<le> unat n + 1" by simp
    from factorial_loop_returns [OF bound this, of 1]
    have "factorial_loop 2 n 1 = Some (word_of_nat (\<Prod>{2..unat n}))" by simp
    moreover have "fact (unat n) = \<Prod>{2..unat n}"
      using False prod.atLeast_Suc_atMost [of 1 "unat n" "\<lambda>k. k"]
      by (simp add: fact_prod numeral_2_eq_2)
    ultimately show ?thesis using nonneg by (simp add: demo_factorial_def)
  qed
qed

lemma demo_factorial_negative:
  "n <s 0 \<Longrightarrow> demo_factorial n = Some (- 1)"
  by (simp add: demo_factorial_def)

text \<open>
  Claim C10.  \<open>demo_factorial\<close> returns the sentinel \<open>-1\<close> for \<open>-1\<close>, 1 for 0 and
  for 1, and 120 for 5, as claimed; by \<open>demo_factorial_negative\<close> it returns \<open>-1\<close> for
  every negative \<open>n\<close> and by \<open>demo_factorial_returns\<close> the product modulo \<open>2^64\<close>
  for every other \<open>n\<close> below \<open>2^31 - 1\<close>.  At \<open>n = 2^31 - 1\<close> it does not return:
  \<open>i <= n\<close> holds for every \<open>int32_t i\<close>, and \<open>i++\<close> wraps.
\<close>

theorem demo_factorial_at_int32_max:
  "demo_factorial (- 1) = Some (- 1) \<and> demo_factorial 0 = Some 1 \<and>
   demo_factorial 1 = Some 1 \<and> demo_factorial 5 = Some 120 \<and>
   demo_factorial 0x7FFFFFFF = None"
proof -
  have "demo_factorial 0x7FFFFFFF = None"
    by (simp add: demo_factorial_def factorial_loop_never_exits word_sless_alt)
  moreover have "demo_factorial (- 1) = Some (- 1)"
    by (simp add: demo_factorial_def word_sless_alt)
  moreover have "demo_factorial 0 = Some 1" "demo_factorial 1 = Some 1" "demo_factorial 5 = Some 120"
    by (simp_all add: demo_factorial_def factorial_loop.simps word_sless_alt word_sle_eq)
  ultimately show ?thesis by simp
qed

end
